theory Spec2Isabelle
  imports Main "HOL-Library.AList"
begin

section \<open>The signalling server of \<^verbatim>\<open>src/server.js\<close>\<close>

text \<open>
  The server keeps five JavaScript \<^verbatim>\<open>Map\<close>s (lines 52--60) and reacts to events of three
  kinds: messages of a client socket, events of a provider WebSocket that a socket opened
  for transcription, and the periodic cleanup timer. Every handler runs to completion, so
  a handler is a function from the state before to the state after, together with the
  list of \<^verbatim>\<open>emit\<close> calls it made.

  A JavaScript \<^verbatim>\<open>Map\<close> keeps its entries in insertion order; it is an association
  list here, read with \<^const>\<open>map_of\<close>, written with \<^const>\<open>AList.update\<close> (an existing key
  keeps its place, a new key goes to the end) and \<^const>\<open>AList.delete\<close>. A \<^verbatim>\<open>Set\<close> of
  sockets is a list without repetitions in insertion order.

  Socket objects are shared between the tables and mutated in place
  (\<^verbatim>\<open>socket.userId = userId\<close>), so the state holds a store of sockets and the tables hold
  positions in that store. Identifiers and payloads are strings; a field that a client left
  out of a message is \<^const>\<open>None\<close>. A message always carries its payload object, so the
  destructuring in a handler's parameter list does not fail.

  Times are milliseconds since the epoch: \<^verbatim>\<open>new Date().toISOString()\<close> keeps milliseconds and
  line 564 parses the string back, so the stored string and the number carry the same
  information. A handler gets the time of its run as one argument \<open>now\<close>, which stands for
  each of its readings of the clock.
\<close>

subsection \<open>Data\<close>

type_synonym sid = nat
type_synonym wsid = nat
type_synonym payload = string

record sock =
  userId :: "string option"
  matchId :: "string option"
  connected :: bool

record meta =
  createdAt :: int
  lastActivity :: int

datatype ready_state = CONNECTING | OPEN | CLOSING | CLOSED

record ws =
  owner :: sid
  language :: string
  readyState :: ready_state
  sent :: "payload list"

record state =
  matches :: "(string \<times> sid list) list"
  userSockets :: "(string \<times> sid) list"
  socketToUser :: "(sid \<times> string) list"
  matchMetadata :: "(string \<times> meta) list"
  deepgramConnections :: "(sid \<times> wsid) list"
  sockets :: "sock list"
  rooms :: "(string \<times> sid list) list"
  providers :: "ws list"
  DEEPGRAM_API_KEY :: "string option"

text \<open>The events a server sends to a client (section 6 of the specification).\<close>

datatype msg =
    Error string string
  | Joined string string "string option list" nat
  | UserJoined string nat
  | UserLeft string
  | IncomingCall "string option"
  | CallAccepted "string option"
  | CallRejected "string option" string
  | CallEnded "string option"
  | OfferMsg payload "string option"
  | AnswerMsg payload "string option"
  | IceCandidateMsg payload "string option"
  | TranscriptionReady
  | TranscriptionResult string bool int
  | TranscriptionClosed int string
  | TranscriptionError string

type_synonym emit = "sid \<times> msg"

subsection \<open>JavaScript and library primitives\<close>

text \<open>\<^verbatim>\<open>!x\<close> on a string field: \<^verbatim>\<open>undefined\<close> and the empty string are falsy.\<close>

fun truthy :: "string option \<Rightarrow> bool" where
  "truthy None = False"
| "truthy (Some x) = (x \<noteq> [])"

text \<open>\<^verbatim>\<open>Set.prototype.add\<close>: a member stays where it is, a new element goes last.\<close>

definition set_add :: "'a \<Rightarrow> 'a list \<Rightarrow> 'a list" where
  "set_add x xs = (if x \<in> set xs then xs else xs @ [x])"

text \<open>
  A position beyond the store is no socket object; the tables of a state reached from
  \<open>init\<close> never hold one. Reading a field of it gives \<^verbatim>\<open>undefined\<close>.
\<close>

definition is_connected :: "state \<Rightarrow> sid \<Rightarrow> bool" where
  "is_connected s r = (r < length (sockets s) \<and> connected (sockets s ! r))"

definition userId_of :: "state \<Rightarrow> sid \<Rightarrow> string option" where
  "userId_of s r = (if r < length (sockets s) then userId (sockets s ! r) else None)"

definition matchId_of :: "state \<Rightarrow> sid \<Rightarrow> string option" where
  "matchId_of s r = (if r < length (sockets s) then matchId (sockets s ! r) else None)"

text \<open>
  Rooms belong to the Socket.IO library, which is not part of the repository. What the
  handlers rely on is modelled here: \<^verbatim>\<open>socket.join(room)\<close> adds the socket to the room,
  \<^verbatim>\<open>socket.to(room).emit(ev)\<close> sends \<open>ev\<close> to every socket of the room but the sender, and
  a closing socket leaves all its rooms and clears its \<^verbatim>\<open>connected\<close> flag before its
  \<^verbatim>\<open>disconnect\<close> handler runs. The room that every socket has under its own id is left
  out: socket ids are generated by the library and are no match identifiers.
\<close>

definition room_members :: "state \<Rightarrow> string \<Rightarrow> sid list" where
  "room_members s room = (case map_of (rooms s) room of None \<Rightarrow> [] | Some xs \<Rightarrow> xs)"

definition socket_join :: "sid \<Rightarrow> string \<Rightarrow> state \<Rightarrow> state" where
  "socket_join sk room s =
     s\<lparr>rooms := AList.update room (set_add sk (room_members s room)) (rooms s)\<rparr>"

definition emit_to_room :: "state \<Rightarrow> sid \<Rightarrow> string \<Rightarrow> msg \<Rightarrow> emit list" where
  "emit_to_room s sk room ev = map (\<lambda>r. (r, ev)) (filter (\<lambda>r. r \<noteq> sk) (room_members s room))"

definition socket_onclose :: "sid \<Rightarrow> state \<Rightarrow> state" where
  "socket_onclose sk s =
     s\<lparr>rooms := map (\<lambda>(room, xs). (room, removeAll sk xs)) (rooms s),
       sockets := (sockets s)[sk := (sockets s ! sk)\<lparr>connected := False\<rparr>]\<rparr>"

text \<open>
  The provider WebSocket (package \<^verbatim>\<open>ws\<close>): \<^verbatim>\<open>close()\<close> on a socket that is not closed yet
  starts the closing handshake; the \<^verbatim>\<open>close\<close> event comes later, as an event of its own.
\<close>

definition ws_close :: "wsid \<Rightarrow> ws list \<Rightarrow> ws list" where
  "ws_close w ps =
     (if w < length ps \<and> readyState (ps ! w) \<noteq> CLOSED
      then ps[w := (ps ! w)\<lparr>readyState := CLOSING\<rparr>] else ps)"

text \<open>
  \<^verbatim>\<open>userSockets.get(to)\<close> followed by \<^verbatim>\<open>targetSocket && targetSocket.connected\<close>: the socket
  that a routed message goes to, if there is one.
\<close>

definition live_target :: "state \<Rightarrow> string option \<Rightarrow> sid option" where
  "live_target s to =
     (case to of
        None \<Rightarrow> None
      | Some u \<Rightarrow>
          (case map_of (userSockets s) u of
             None \<Rightarrow> None
           | Some t \<Rightarrow> if is_connected s t then Some t else None))"

subsection \<open>Registration (lines 178--250)\<close>

text \<open>Lines 188--194: the labels on the socket object and the two indexes.\<close>

definition store_user :: "sid \<Rightarrow> string \<Rightarrow> string \<Rightarrow> state \<Rightarrow> state" where
  "store_user sk u m s =
     s\<lparr>sockets := (sockets s)[sk := (sockets s ! sk)\<lparr>userId := Some u, matchId := Some m\<rparr>],
       userSockets := AList.update u sk (userSockets s),
       socketToUser := AList.update sk u (socketToUser s)\<rparr>"

text \<open>Lines 196--203: a match that does not exist yet is created empty, with its metadata.\<close>

definition init_match :: "int \<Rightarrow> string \<Rightarrow> state \<Rightarrow> state" where
  "init_match now m s =
     (if map_of (matches s) m = None
      then s\<lparr>matches := AList.update m [] (matches s),
             matchMetadata := AList.update m \<lparr>createdAt = now, lastActivity = now\<rparr> (matchMetadata s)\<rparr>
      else s)"

text \<open>\<^verbatim>\<open>matches.get(matchId)\<close>, where the match exists.\<close>

definition match_members :: "state \<Rightarrow> string \<Rightarrow> sid list" where
  "match_members s m = (case map_of (matches s) m of None \<Rightarrow> [] | Some xs \<Rightarrow> xs)"

text \<open>Lines 216--218: \<^verbatim>\<open>match.add(socket)\<close> and \<^verbatim>\<open>socket.join(matchId)\<close>.\<close>

definition add_to_match :: "sid \<Rightarrow> string \<Rightarrow> state \<Rightarrow> state" where
  "add_to_match sk m s =
     socket_join sk m (s\<lparr>matches := AList.update m (set_add sk (match_members s m)) (matches s)\<rparr>)"

text \<open>
  Line 221 reads \<^verbatim>\<open>matchMetadata.get(matchId).lastActivity\<close>: without metadata this is a
  \<^verbatim>\<open>TypeError\<close>, caught at line 243 and reported as \<^verbatim>\<open>server_error\<close>; what the handler did
  before stays done.
\<close>

definition register :: "int \<Rightarrow> sid \<Rightarrow> string option \<Rightarrow> string option \<Rightarrow> state \<Rightarrow> state \<times> emit list" where
  "register now sk uo mo s =
     (case (uo, mo) of
        (Some u, Some m) \<Rightarrow>
          if u = [] \<or> m = [] then (s, [(sk, Error ''validation'' ''Missing userId or matchId'')])
          else
            let s3 = init_match now m (store_user sk u m s)
            in if 2 \<le> length (match_members s3 m) \<and> sk \<notin> set (match_members s3 m)
               then (s3, [(sk, Error ''match_full'' ''This match already has 2 participants'')])
               else
                 let s4 = add_to_match sk m s3
                 in (case map_of (matchMetadata s4) m of
                       None \<Rightarrow> (s4, [(sk, Error ''server_error'' ''Failed to register'')])
                     | Some md \<Rightarrow>
                         let s5 = s4\<lparr>matchMetadata := AList.update m (md\<lparr>lastActivity := now\<rparr>) (matchMetadata s4)\<rparr>;
                             participants = map (userId_of s5) (match_members s5 m)
                         in (s5, (sk, Joined m u participants (length (match_members s5 m)))
                                 # emit_to_room s5 sk m (UserJoined u (length (match_members s5 m)))))
      | _ \<Rightarrow> (s, [(sk, Error ''validation'' ''Missing userId or matchId'')]))"

subsection \<open>Call control (lines 256--347)\<close>

definition touch :: "int \<Rightarrow> sid \<Rightarrow> state \<Rightarrow> state" where
  "touch now sk s =
     (case matchId_of s sk of
        None \<Rightarrow> s
      | Some m \<Rightarrow>
          if m = [] then s
          else (case map_of (matchMetadata s) m of
                  None \<Rightarrow> s
                | Some md \<Rightarrow> s\<lparr>matchMetadata := AList.update m (md\<lparr>lastActivity := now\<rparr>) (matchMetadata s)\<rparr>))"

definition initiate_call :: "int \<Rightarrow> sid \<Rightarrow> string option \<Rightarrow> state \<Rightarrow> state \<times> emit list" where
  "initiate_call now sk to s =
     (case live_target s to of
        None \<Rightarrow> (s, [(sk, Error ''user_offline'' ''Target user is not connected'')])
      | Some t \<Rightarrow> (touch now sk s, [(t, IncomingCall (userId_of s sk))]))"

definition accept_call :: "sid \<Rightarrow> string option \<Rightarrow> state \<Rightarrow> state \<times> emit list" where
  "accept_call sk to s =
     (case live_target s to of
        None \<Rightarrow> (s, [])
      | Some t \<Rightarrow> (s, [(t, CallAccepted (userId_of s sk))]))"

definition reject_call :: "sid \<Rightarrow> string option \<Rightarrow> string option \<Rightarrow> state \<Rightarrow> state \<times> emit list" where
  "reject_call sk to reason s =
     (case live_target s to of
        None \<Rightarrow> (s, [])
      | Some t \<Rightarrow>
          (s, [(t, CallRejected (userId_of s sk)
                     (case reason of None \<Rightarrow> ''User declined''
                      | Some r \<Rightarrow> if r = [] then ''User declined'' else r))]))"

definition end_call :: "sid \<Rightarrow> string option \<Rightarrow> state \<Rightarrow> state \<times> emit list" where
  "end_call sk to s =
     (s, (if truthy to
          then (case live_target s to of None \<Rightarrow> [] | Some t \<Rightarrow> [(t, CallEnded (userId_of s sk))])
          else [])
         @ (case matchId_of s sk of
              None \<Rightarrow> []
            | Some m \<Rightarrow> if m = [] then [] else emit_to_room s sk m (CallEnded (userId_of s sk))))"

subsection \<open>Signalling (lines 353--405)\<close>

definition offer :: "sid \<Rightarrow> payload \<Rightarrow> string option \<Rightarrow> state \<Rightarrow> state \<times> emit list" where
  "offer sk p to s =
     (case live_target s to of
        Some t \<Rightarrow> (s, [(t, OfferMsg p (userId_of s sk))])
      | None \<Rightarrow> (s, [(sk, Error ''user_offline'' ''Target user not found'')]))"

definition answer :: "sid \<Rightarrow> payload \<Rightarrow> string option \<Rightarrow> state \<Rightarrow> state \<times> emit list" where
  "answer sk p to s =
     (case live_target s to of
        Some t \<Rightarrow> (s, [(t, AnswerMsg p (userId_of s sk))])
      | None \<Rightarrow> (s, []))"

definition ice_candidate :: "sid \<Rightarrow> payload \<Rightarrow> string option \<Rightarrow> state \<Rightarrow> state \<times> emit list" where
  "ice_candidate sk p to s =
     (case live_target s to of
        Some t \<Rightarrow> (s, [(t, IceCandidateMsg p (userId_of s sk))])
      | None \<Rightarrow> (s, []))"

subsection \<open>Transcription proxy (lines 411--492)\<close>

text \<open>
  Lines 420--424, 487--491 and 503--508 are the same three statements: close the session
  registered for the socket, if any, and take it out of the table.
\<close>

definition close_existing :: "sid \<Rightarrow> state \<Rightarrow> state" where
  "close_existing sk s =
     (case map_of (deepgramConnections s) sk of
        None \<Rightarrow> s
      | Some w \<Rightarrow> s\<lparr>providers := ws_close w (providers s),
                    deepgramConnections := AList.delete sk (deepgramConnections s)\<rparr>)"

text \<open>Lines 426--437: \<^verbatim>\<open>new WebSocket(...)\<close> and \<^verbatim>\<open>deepgramConnections.set\<close>.\<close>

definition open_session :: "sid \<Rightarrow> string option \<Rightarrow> state \<Rightarrow> state" where
  "open_session sk lang s =
     (let l = (case lang of None \<Rightarrow> ''en-US'' | Some x \<Rightarrow> if x = [] then ''en-US'' else x);
          w = length (providers s)
      in s\<lparr>providers := providers s @ [\<lparr>owner = sk, language = l, readyState = CONNECTING, sent = []\<rparr>],
           deepgramConnections := AList.update sk w (deepgramConnections s)\<rparr>)"

definition transcription_start :: "sid \<Rightarrow> string option \<Rightarrow> state \<Rightarrow> state \<times> emit list" where
  "transcription_start sk lang s =
     (if \<not> truthy (DEEPGRAM_API_KEY s)
      then (s, [(sk, TranscriptionError ''DEEPGRAM_API_KEY not configured on server'')])
      else (open_session sk lang (close_existing sk s), []))"

definition audio_chunk :: "sid \<Rightarrow> payload \<Rightarrow> state \<Rightarrow> state \<times> emit list" where
  "audio_chunk sk d s =
     (case map_of (deepgramConnections s) sk of
        None \<Rightarrow> (s, [])
      | Some w \<Rightarrow>
          if w < length (providers s) \<and> readyState (providers s ! w) = OPEN
          then (s\<lparr>providers := (providers s)[w := (providers s ! w)\<lparr>sent := sent (providers s ! w) @ [d]\<rparr>]\<rparr>, [])
          else (s, []))"

definition transcription_stop :: "sid \<Rightarrow> state \<Rightarrow> state \<times> emit list" where
  "transcription_stop sk s = (close_existing sk s, [])"

text \<open>
  The four listeners of a provider socket (lines 439--470). Each closes over the client
  socket \<open>sk\<close> that opened it, and none of them refers to the provider socket itself.
\<close>

definition dg_open :: "sid \<Rightarrow> state \<Rightarrow> state \<times> emit list" where
  "dg_open sk s = (s, [(sk, TranscriptionReady)])"

definition dg_message :: "int \<Rightarrow> sid \<Rightarrow> string option \<Rightarrow> bool \<Rightarrow> state \<Rightarrow> state \<times> emit list" where
  "dg_message now sk transcript is_final s =
     (case transcript of
        None \<Rightarrow> (s, [])
      | Some t \<Rightarrow> if t = [] then (s, []) else (s, [(sk, TranscriptionResult t is_final now)]))"

definition dg_close :: "sid \<Rightarrow> int \<Rightarrow> string \<Rightarrow> state \<Rightarrow> state \<times> emit list" where
  "dg_close sk code reason s =
     (s\<lparr>deepgramConnections := AList.delete sk (deepgramConnections s)\<rparr>,
      [(sk, TranscriptionClosed code reason)])"

definition dg_error :: "sid \<Rightarrow> string \<Rightarrow> state \<Rightarrow> state \<times> emit list" where
  "dg_error sk message s = (s, [(sk, TranscriptionError message)])"

subsection \<open>Disconnect (lines 498--543)\<close>

definition disconnect :: "sid \<Rightarrow> state \<Rightarrow> state \<times> emit list" where
  "disconnect sk s =
     (let s1 = close_existing sk s in
      case userId_of s1 sk of
        None \<Rightarrow> (s1, [])
      | Some u \<Rightarrow>
          if u = [] then (s1, [])
          else
            let s2 = s1\<lparr>userSockets := AList.delete u (userSockets s1),
                        socketToUser := AList.delete sk (socketToUser s1)\<rparr>
            in (case matchId_of s2 sk of
                  None \<Rightarrow> (s2, [])
                | Some m \<Rightarrow>
                    if m = [] then (s2, [])
                    else (case map_of (matches s2) m of
                            None \<Rightarrow> (s2, [])
                          | Some xs \<Rightarrow>
                              let match' = removeAll sk xs;
                                  s3 = s2\<lparr>matches := AList.update m match' (matches s2)\<rparr>;
                                  out = emit_to_room s3 sk m (UserLeft u)
                                        @ emit_to_room s3 sk m (CallEnded (Some u))
                              in if length match' = 0
                                 then (s3\<lparr>matches := AList.delete m (matches s3),
                                          matchMetadata := AList.delete m (matchMetadata s3)\<rparr>, out)
                                 else (s3, out))))"

subsection \<open>Periodic cleanup (lines 559--574)\<close>

definition STALE_TIMEOUT :: int where
  "STALE_TIMEOUT = 30 * 60 * 1000"

fun reap_entries :: "int \<Rightarrow> (string \<times> meta) list \<Rightarrow> state \<Rightarrow> state" where
  "reap_entries now [] s = s"
| "reap_entries now ((m, md) # es) s =
     reap_entries now es
       (if now - lastActivity md > STALE_TIMEOUT
        then (case map_of (matches s) m of
                None \<Rightarrow> s
              | Some xs \<Rightarrow>
                  if length xs = 0
                  then s\<lparr>matches := AList.delete m (matches s),
                         matchMetadata := AList.delete m (matchMetadata s)\<rparr>
                  else s)
        else s)"

definition reaper :: "int \<Rightarrow> state \<Rightarrow> state" where
  "reaper now s = reap_entries now (matchMetadata s) s"

subsection \<open>The event loop\<close>

datatype event =
    Connection
  | Register sid "string option" "string option"
  | InitiateCall sid "string option"
  | AcceptCall sid "string option"
  | RejectCall sid "string option" "string option"
  | EndCall sid "string option"
  | OfferEv sid payload "string option"
  | AnswerEv sid payload "string option"
  | IceCandidateEv sid payload "string option"
  | TranscriptionStart sid "string option"
  | AudioChunk sid payload
  | TranscriptionStop sid
  | Disconnect sid
  | DgOpen wsid
  | DgMessage wsid "string option" bool
  | DgClose wsid int string
  | DgError wsid string
  | Reaper

text \<open>
  A client message reaches its handler only while the socket is connected. A provider
  socket opens once, from \<^verbatim>\<open>CONNECTING\<close>, and fires no event after its \<^verbatim>\<open>close\<close> event.
  Both are facts about the libraries, as is the change of \<^verbatim>\<open>readyState\<close> that precedes
  an event: \<^verbatim>\<open>OPEN\<close> before \<^verbatim>\<open>open\<close>, \<^verbatim>\<open>CLOSED\<close> before \<^verbatim>\<open>close\<close>, and \<^verbatim>\<open>CLOSING\<close> before
  \<^verbatim>\<open>error\<close>: a provider socket that reports an error is on its way down, and its \<^verbatim>\<open>close\<close>
  event follows, as an event of its own.
\<close>

definition on_socket :: "sid \<Rightarrow> state \<Rightarrow> (state \<Rightarrow> state \<times> emit list) \<Rightarrow> state \<times> emit list" where
  "on_socket sk s h = (if is_connected s sk then h s else (s, []))"

definition set_ready :: "wsid \<Rightarrow> ready_state \<Rightarrow> state \<Rightarrow> state" where
  "set_ready w r s = s\<lparr>providers := (providers s)[w := (providers s ! w)\<lparr>readyState := r\<rparr>]\<rparr>"

definition on_provider ::
  "wsid \<Rightarrow> ready_state list \<Rightarrow> state \<Rightarrow> (sid \<Rightarrow> state \<Rightarrow> state \<times> emit list) \<Rightarrow> state \<times> emit list" where
  "on_provider w allowed s h =
     (if w < length (providers s) \<and> readyState (providers s ! w) \<in> set allowed
      then h (owner (providers s ! w)) s else (s, []))"

fun handle :: "int \<Rightarrow> event \<Rightarrow> state \<Rightarrow> state \<times> emit list" where
  "handle now Connection s =
     (s\<lparr>sockets := sockets s @ [\<lparr>userId = None, matchId = None, connected = True\<rparr>]\<rparr>, [])"
| "handle now (Register sk u m) s = on_socket sk s (register now sk u m)"
| "handle now (InitiateCall sk to) s = on_socket sk s (initiate_call now sk to)"
| "handle now (AcceptCall sk to) s = on_socket sk s (accept_call sk to)"
| "handle now (RejectCall sk to reason) s = on_socket sk s (reject_call sk to reason)"
| "handle now (EndCall sk to) s = on_socket sk s (end_call sk to)"
| "handle now (OfferEv sk p to) s = on_socket sk s (offer sk p to)"
| "handle now (AnswerEv sk p to) s = on_socket sk s (answer sk p to)"
| "handle now (IceCandidateEv sk p to) s = on_socket sk s (ice_candidate sk p to)"
| "handle now (TranscriptionStart sk lang) s = on_socket sk s (transcription_start sk lang)"
| "handle now (AudioChunk sk d) s = on_socket sk s (audio_chunk sk d)"
| "handle now (TranscriptionStop sk) s = on_socket sk s (transcription_stop sk)"
| "handle now (Disconnect sk) s = on_socket sk s (\<lambda>s. disconnect sk (socket_onclose sk s))"
| "handle now (DgOpen w) s =
     on_provider w [CONNECTING] s (\<lambda>sk s. dg_open sk (set_ready w OPEN s))"
| "handle now (DgMessage w transcript is_final) s =
     on_provider w [OPEN, CLOSING] s (\<lambda>sk. dg_message now sk transcript is_final)"
| "handle now (DgClose w code reason) s =
     on_provider w [CONNECTING, OPEN, CLOSING] s
       (\<lambda>sk s. dg_close sk code reason (set_ready w CLOSED s))"
| "handle now (DgError w message) s =
     on_provider w [CONNECTING, OPEN, CLOSING] s
       (\<lambda>sk s. dg_error sk message (set_ready w CLOSING s))"
| "handle now Reaper s = (reaper now s, [])"

fun run :: "state \<Rightarrow> (int \<times> event) list \<Rightarrow> state" where
  "run s [] = s"
| "run s ((now, e) # es) = run (fst (handle now e s)) es"

definition init :: "string option \<Rightarrow> state" where
  "init key =
     \<lparr>matches = [], userSockets = [], socketToUser = [], matchMetadata = [],
      deepgramConnections = [], sockets = [], rooms = [], providers = [],
      DEEPGRAM_API_KEY = key\<rparr>"

subsection \<open>Observations and sample runs\<close>

definition is_error :: "msg \<Rightarrow> bool" where
  "is_error ev = (case ev of Error t x \<Rightarrow> True | _ \<Rightarrow> False)"

text \<open>The \<^verbatim>\<open>error\<close> events that a list of emits sends to one socket.\<close>

definition errors_to :: "sid \<Rightarrow> emit list \<Rightarrow> emit list" where
  "errors_to sk out = filter (\<lambda>e. fst e = sk \<and> is_error (snd e)) out"

text \<open>
  Three connections; the first two register as \<open>u1\<close> and \<open>u2\<close> in match \<open>m1\<close> at times
  1000 and 2000, the third has not sent anything yet.
\<close>

definition two_joined :: state where
  "two_joined = run (init None)
     [(0, Connection), (0, Connection), (0, Connection),
      (1000, Register 0 (Some ''u1'') (Some ''m1'')),
      (2000, Register 1 (Some ''u2'') (Some ''m1''))]"

text \<open>
  One connection that started transcription with a configured credential and whose
  provider socket has opened.
\<close>

definition transcribing :: state where
  "transcribing = run (init (Some ''key''))
     [(0, Connection), (10, TranscriptionStart 0 None), (20, DgOpen 0)]"

text \<open>The state after the first connection of \<open>two_joined\<close> has registered once more.\<close>

definition rejoined :: state where
  "rejoined = fst (register 3000 0 (Some ''u1'') (Some ''m1'') two_joined)"

text \<open>
  What the specification says the cleanup purges: a match with zero current members whose
  \<^verbatim>\<open>lastActivity\<close> is more than 30 minutes (in milliseconds) before the current time. The
  first definition reads the metadata from a list of entries, the second from the state.
\<close>

definition doomed :: "int \<Rightarrow> (string \<times> meta) list \<Rightarrow> state \<Rightarrow> string \<Rightarrow> bool" where
  "doomed now es s m =
     (case map_of es m of
        None \<Rightarrow> False
      | Some md \<Rightarrow> now - lastActivity md > 30 * 60 * 1000 \<and> map_of (matches s) m = Some [])"

definition stale_and_empty :: "int \<Rightarrow> state \<Rightarrow> string \<Rightarrow> bool" where
  "stale_and_empty now s m = doomed now (matchMetadata s) s m"

text \<open>
  A state with an empty match that is stale at time 2000000, a stale match that has a
  member, and an empty match that is fresh.
\<close>

definition abandoned :: state where
  "abandoned =
     \<lparr>matches = [(''old'', []), (''busy'', [0]), (''new'', [])],
      userSockets = [(''u1'', 0)], socketToUser = [(0, ''u1'')],
      matchMetadata = [(''old'', \<lparr>createdAt = 0, lastActivity = 1000\<rparr>),
                       (''busy'', \<lparr>createdAt = 0, lastActivity = 1000\<rparr>),
                       (''new'', \<lparr>createdAt = 0, lastActivity = 2000000\<rparr>)],
      deepgramConnections = [],
      sockets = [\<lparr>userId = Some ''u1'', matchId = Some ''busy'', connected = True\<rparr>],
      rooms = [(''busy'', [0])], providers = [], DEEPGRAM_API_KEY = None\<rparr>"

text \<open>
  The part of the state that membership depends on, and the well-formedness of a state: a
  member set has no repetition and at most two elements, its elements are sockets of the
  store, and a connected member of a match is in the room of that match.
\<close>

definition core :: "state \<Rightarrow> (string \<times> sid list) list \<times> (string \<times> sid list) list \<times> sock list" where
  "core s = (matches s, rooms s, sockets s)"

text \<open>The events whose handlers leave the match table, the rooms and the socket store alone.\<close>

fun quiet :: "event \<Rightarrow> bool" where
  "quiet Connection = False"
| "quiet (Register sk u m) = False"
| "quiet (Disconnect sk) = False"
| "quiet Reaper = False"
| "quiet e = True"

definition capacity :: "state \<Rightarrow> bool" where
  "capacity s = (\<forall>e \<in> set (matches s). distinct (snd e) \<and> length (snd e) \<le> 2)"

definition members_live :: "state \<Rightarrow> bool" where
  "members_live s =
     (\<forall>m xs. map_of (matches s) m = Some xs \<longrightarrow>
        (\<forall>r \<in> set xs. r < length (sockets s) \<and> (is_connected s r \<longrightarrow> r \<in> set (room_members s m))))"

text \<open>
  A connection starts transcription, starts it again once the first provider socket is
  open, receives the \<^verbatim>\<open>close\<close> event of the first provider socket (which the restart
  closed), and starts a third time.
\<close>

definition restarted :: state where
  "restarted = run (init (Some ''key''))
     [(0, Connection), (10, TranscriptionStart 0 None), (20, DgOpen 0),
      (30, TranscriptionStart 0 None), (40, DgOpen 1), (50, DgClose 0 1000 []),
      (60, TranscriptionStart 0 None), (70, DgOpen 2)]"

text \<open>
  A connection registers in \<open>m1\<close>, registers again in \<open>m2\<close> and disconnects: the disconnect
  handler takes it out of \<open>m2\<close>, its current match, and \<open>m1\<close> keeps it. Then a second
  connection registers in \<open>m1\<close>.
\<close>

definition left_behind :: state where
  "left_behind = run (init None)
     [(0, Connection), (0, Connection),
      (1000, Register 0 (Some ''u1'') (Some ''m1'')),
      (2000, Register 0 (Some ''u1'') (Some ''m2'')),
      (3000, Disconnect 0),
      (4000, Register 1 (Some ''u2'') (Some ''m1''))]"

section \<open>Properties\<close>

subsection \<open>Evaluation of the sample runs\<close>

lemmas eval_defs = init_def on_socket_def is_connected_def register_def store_user_def
  init_match_def match_members_def add_to_match_def Let_def set_add_def socket_join_def
  room_members_def userId_of_def matchId_of_def emit_to_room_def live_target_def

lemma two_joined_eval:
  "two_joined =
     \<lparr>matches = [(''m1'', [0, 1])],
      userSockets = [(''u1'', 0), (''u2'', 1)],
      socketToUser = [(0, ''u1''), (1, ''u2'')],
      matchMetadata = [(''m1'', \<lparr>createdAt = 1000, lastActivity = 2000\<rparr>)],
      deepgramConnections = [],
      sockets = [\<lparr>userId = Some ''u1'', matchId = Some ''m1'', connected = True\<rparr>,
                 \<lparr>userId = Some ''u2'', matchId = Some ''m1'', connected = True\<rparr>,
                 \<lparr>userId = None, matchId = None, connected = True\<rparr>],
      rooms = [(''m1'', [0, 1])], providers = [], DEEPGRAM_API_KEY = None\<rparr>"
  by (simp add: two_joined_def eval_defs)

lemma two_joined_offline: "live_target two_joined (Some ''u9'') = None"
  by (simp add: two_joined_eval live_target_def)

lemma transcribing_eval:
  "transcribing =
     \<lparr>matches = [], userSockets = [], socketToUser = [], matchMetadata = [],
      deepgramConnections = [(0, 0)],
      sockets = [\<lparr>userId = None, matchId = None, connected = True\<rparr>],
      rooms = [],
      providers = [\<lparr>owner = 0, language = ''en-US'', readyState = OPEN, sent = []\<rparr>],
      DEEPGRAM_API_KEY = Some ''key''\<rparr>"
  by (simp add: transcribing_def init_def on_socket_def is_connected_def transcription_start_def
      close_existing_def open_session_def on_provider_def set_ready_def dg_open_def)

subsection \<open>Registration\<close>

lemma store_user_fields [simp]:
  "matches (store_user sk u m s) = matches s"
  "matchMetadata (store_user sk u m s) = matchMetadata s"
  "rooms (store_user sk u m s) = rooms s"
  "providers (store_user sk u m s) = providers s"
  "deepgramConnections (store_user sk u m s) = deepgramConnections s"
  "DEEPGRAM_API_KEY (store_user sk u m s) = DEEPGRAM_API_KEY s"
  "userSockets (store_user sk u m s) = AList.update u sk (userSockets s)"
  "socketToUser (store_user sk u m s) = AList.update sk u (socketToUser s)"
  "sockets (store_user sk u m s) = (sockets s)[sk := (sockets s ! sk)\<lparr>userId := Some u, matchId := Some m\<rparr>]"
  by (simp_all add: store_user_def)

lemma init_match_fields [simp]:
  "sockets (init_match now m s) = sockets s"
  "userSockets (init_match now m s) = userSockets s"
  "socketToUser (init_match now m s) = socketToUser s"
  "rooms (init_match now m s) = rooms s"
  "providers (init_match now m s) = providers s"
  "deepgramConnections (init_match now m s) = deepgramConnections s"
  "DEEPGRAM_API_KEY (init_match now m s) = DEEPGRAM_API_KEY s"
  by (simp_all add: init_match_def)

lemma init_match_exists:
  "map_of (matches s) m = Some xs \<Longrightarrow> init_match now m s = s"
  by (simp add: init_match_def)

lemma init_match_matches:
  "map_of (matches (init_match now m s)) k =
     (if k = m \<and> map_of (matches s) m = None then Some [] else map_of (matches s) k)"
  by (simp add: init_match_def update_conv')

lemma init_match_members [simp]: "match_members (init_match now m s) k = match_members s k"
  by (auto simp: match_members_def init_match_matches)

lemma add_to_match_fields [simp]:
  "sockets (add_to_match sk m s) = sockets s"
  "userSockets (add_to_match sk m s) = userSockets s"
  "socketToUser (add_to_match sk m s) = socketToUser s"
  "matchMetadata (add_to_match sk m s) = matchMetadata s"
  "providers (add_to_match sk m s) = providers s"
  "deepgramConnections (add_to_match sk m s) = deepgramConnections s"
  "DEEPGRAM_API_KEY (add_to_match sk m s) = DEEPGRAM_API_KEY s"
  "matches (add_to_match sk m s) = AList.update m (set_add sk (match_members s m)) (matches s)"
  by (simp_all add: add_to_match_def socket_join_def)

lemma add_to_match_members:
  "match_members (add_to_match sk m s) k =
     (if k = m then set_add sk (match_members s m) else match_members s k)"
  by (simp add: match_members_def update_conv')

lemma match_members_upd_meta [simp]: "match_members (s\<lparr>matchMetadata := x\<rparr>) k = match_members s k"
  by (simp add: match_members_def)

lemma set_add_member [simp]: "x \<in> set (set_add x xs)"
  by (simp add: set_add_def)

lemma set_add_id: "x \<in> set xs \<Longrightarrow> set_add x xs = xs"
  by (simp add: set_add_def)

text \<open>What a \<^verbatim>\<open>joined\<close> acknowledgment tells about the state it was sent in.\<close>

lemma register_joinedD:
  assumes "register t sk (Some u) (Some m) s = (s1, (sk, Joined m' u' ps n) # rest)"
  shows "u \<noteq> [] \<and> m \<noteq> [] \<and> sk \<in> set (match_members s1 m) \<and>
         map_of (matches s1) m = Some (match_members s1 m) \<and>
         map_of (matchMetadata s1) m \<noteq> None \<and>
         ps = map (userId_of s1) (match_members s1 m) \<and> n = length (match_members s1 m) \<and>
         sockets s1 = (sockets s)[sk := (sockets s ! sk)\<lparr>userId := Some u, matchId := Some m\<rparr>]"
proof -
  from assms have um: "u \<noteq> []" "m \<noteq> []"
    by (auto simp: register_def split: if_splits)
  define s3 where "s3 = init_match t m (store_user sk u m s)"
  define s4 where "s4 = add_to_match sk m s3"
  from assms um have nofull: "\<not> (2 \<le> length (match_members s3 m) \<and> sk \<notin> set (match_members s3 m))"
    by (auto simp: register_def Let_def s3_def split: if_splits)
  with assms um obtain md where md: "map_of (matchMetadata s4) m = Some md"
    by (cases "map_of (matchMetadata s4) m") (auto simp: register_def Let_def s3_def s4_def)
  from assms um nofull md
  have s1: "s1 = s4\<lparr>matchMetadata := AList.update m (md\<lparr>lastActivity := t\<rparr>) (matchMetadata s4)\<rparr>"
    and ps: "ps = map (userId_of s1) (match_members s1 m)" and n: "n = length (match_members s1 m)"
    by (auto simp: register_def Let_def s3_def s4_def)
  have mem: "match_members s1 m = set_add sk (match_members s3 m)"
    by (simp add: s1 s4_def add_to_match_members)
  have "map_of (matches s1) m = Some (match_members s1 m)"
    by (simp add: s1 s4_def match_members_def update_conv')
  moreover have "map_of (matchMetadata s1) m \<noteq> None"
    by (simp add: s1 update_conv')
  moreover have "sockets s1 = (sockets s)[sk := (sockets s ! sk)\<lparr>userId := Some u, matchId := Some m\<rparr>]"
    by (simp add: s1 s4_def s3_def)
  ultimately show ?thesis using um ps n mem by simp
qed

text \<open>Registration of a socket that is a member of the match already.\<close>

lemma register_member:
  assumes "u \<noteq> []" "m \<noteq> []" "map_of (matches s) m = Some xs" "sk \<in> set xs"
      and "map_of (matchMetadata s) m = Some md"
      and "s5 = (add_to_match sk m (store_user sk u m s))
                  \<lparr>matchMetadata := AList.update m (md\<lparr>lastActivity := t\<rparr>) (matchMetadata s)\<rparr>"
  shows "register t sk (Some u) (Some m) s =
           (s5, (sk, Joined m u (map (userId_of s5) xs) (length xs))
                # emit_to_room s5 sk m (UserJoined u (length xs)))"
    and "matches s5 = matches s"
proof -
  have i: "init_match t m (store_user sk u m s) = store_user sk u m s"
    using assms(3) by (simp add: init_match_exists)
  have mm: "match_members (store_user sk u m s) m = xs"
    using assms(3) by (simp add: match_members_def)
  have mm': "match_members s5 m = xs"
    using assms(4) by (simp add: assms(6) add_to_match_members mm set_add_id)
  show "register t sk (Some u) (Some m) s =
           (s5, (sk, Joined m u (map (userId_of s5) xs) (length xs))
                # emit_to_room s5 sk m (UserJoined u (length xs)))"
    using assms(1,2,4,5) mm' by (simp add: register_def i mm Let_def flip: assms(6))
  show "matches s5 = matches s"
    using assms(3,4) by (simp add: assms(6) mm set_add_id update_triv)
qed

text \<open>
  \<^bold>\<open>C10.\<close> A registration that is answered with \<^verbatim>\<open>match_full\<close> is not undone: the user index
  maps the userId of the request to the rejected socket, the socket index maps the socket to
  that userId, and the socket carries the userId and the matchId of the request as its
  labels. The match table, with every member set, and the metadata table, with every
  \<^verbatim>\<open>lastActivity\<close>, are the ones from before the call, and so are the rooms.
\<close>

theorem C10_match_full_not_atomic:
  assumes "register now sk uo mo s = (s', out)"
      and "(sk, Error ''match_full'' txt) \<in> set out"
      and "sk < length (sockets s)"
  shows "\<exists>u m. uo = Some u \<and> mo = Some m \<and>
           map_of (userSockets s') u = Some sk \<and>
           map_of (socketToUser s') sk = Some u \<and>
           userId_of s' sk = Some u \<and> matchId_of s' sk = Some m \<and>
           matches s' = matches s \<and> matchMetadata s' = matchMetadata s \<and> rooms s' = rooms s"
  using assms
  apply (cases uo; cases mo)
  apply (auto simp: register_def Let_def update_conv' userId_of_def matchId_of_def emit_to_room_def
      store_user_def init_match_def match_members_def split: if_splits option.splits)
  done

lemma two_joined_third:
  "register 3000 2 (Some ''u3'') (Some ''m1'') two_joined =
     (two_joined\<lparr>sockets := (sockets two_joined)[2 := \<lparr>userId = Some ''u3'', matchId = Some ''m1'', connected = True\<rparr>],
                 userSockets := [(''u1'', 0), (''u2'', 1), (''u3'', 2)],
                 socketToUser := [(0, ''u1''), (1, ''u2''), (2, ''u3'')]\<rparr>,
      [(2, Error ''match_full'' ''This match already has 2 participants'')])"
  by (simp add: two_joined_eval eval_defs)

theorem C10_match_full_not_atomic_witness:
  "(2, Error ''match_full'' ''This match already has 2 participants'')
     \<in> set (snd (register 3000 2 (Some ''u3'') (Some ''m1'') two_joined)) \<and>
   2 < length (sockets two_joined) \<and>
   map_of (userSockets (fst (register 3000 2 (Some ''u3'') (Some ''m1'') two_joined))) ''u3'' = Some 2 \<and>
   map_of (socketToUser (fst (register 3000 2 (Some ''u3'') (Some ''m1'') two_joined))) 2 = Some ''u3'' \<and>
   userId_of (fst (register 3000 2 (Some ''u3'') (Some ''m1'') two_joined)) 2 = Some ''u3'' \<and>
   matchId_of (fst (register 3000 2 (Some ''u3'') (Some ''m1'') two_joined)) 2 = Some ''m1'' \<and>
   matches (fst (register 3000 2 (Some ''u3'') (Some ''m1'') two_joined)) = matches two_joined \<and>
   matchMetadata (fst (register 3000 2 (Some ''u3'') (Some ''m1'') two_joined)) = matchMetadata two_joined"
proof -
  have h1: "(2, Error ''match_full'' ''This match already has 2 participants'')
              \<in> set (snd (register 3000 2 (Some ''u3'') (Some ''m1'') two_joined))"
    by (simp add: two_joined_third)
  have h2: "2 < length (sockets two_joined)"
    by (simp add: two_joined_eval)
  from C10_match_full_not_atomic [OF prod.collapse [symmetric] h1 h2] h1 h2
  show ?thesis by auto
qed

text \<open>
  \<^bold>\<open>C6.\<close> If a registration of a socket in a match was acknowledged with \<^verbatim>\<open>joined\<close>, a second
  registration of the same socket with the same identifiers is acknowledged with \<^verbatim>\<open>joined\<close>
  again, with the same participant list and the same participant count, and it leaves the
  match table as the first registration left it.
\<close>

theorem C6_register_idempotent:
  assumes "register t1 sk (Some u) (Some m) s = (s1, (sk, Joined m u ps1 n1) # rest1)"
  shows "\<exists>s2 rest2. register t2 sk (Some u) (Some m) s1 = (s2, (sk, Joined m u ps1 n1) # rest2) \<and>
           matches s2 = matches s1"
proof -
  note d = register_joinedD[OF assms]
  from d obtain md where md: "map_of (matchMetadata s1) m = Some md" by auto
  define s2 where "s2 = (add_to_match sk m (store_user sk u m s1))
                  \<lparr>matchMetadata := AList.update m (md\<lparr>lastActivity := t2\<rparr>) (matchMetadata s1)\<rparr>"
  have sock: "sockets s2 = sockets s1"
  proof (cases "sk < length (sockets s)")
    case True
    with d have "(sockets s1 ! sk)\<lparr>userId := Some u, matchId := Some m\<rparr> = sockets s1 ! sk" by simp
    then show ?thesis by (simp add: s2_def)
  next
    case False
    with d show ?thesis by (simp add: s2_def list_update_beyond)
  qed
  have u: "userId_of s2 = userId_of s1"
    by (simp add: userId_of_def fun_eq_iff sock)
  have r: "register t2 sk (Some u) (Some m) s1 =
           (s2, (sk, Joined m u (map (userId_of s2) (match_members s1 m)) (length (match_members s1 m)))
                # emit_to_room s2 sk m (UserJoined u (length (match_members s1 m))))"
    by (rule register_member(1)[where xs="match_members s1 m", OF _ _ _ _ md s2_def])
       (use d in simp_all)
  have m: "matches s2 = matches s1"
    by (rule register_member(2)[where xs="match_members s1 m", OF _ _ _ _ md s2_def])
       (use d in simp_all)
  have "register t2 sk (Some u) (Some m) s1 =
          (s2, (sk, Joined m u ps1 n1) # emit_to_room s2 sk m (UserJoined u n1))"
    using d by (simp add: r u)
  with m show ?thesis by blast
qed

lemma two_joined_again:
  "register 3000 0 (Some ''u1'') (Some ''m1'') two_joined =
     (rejoined, [(0, Joined ''m1'' ''u1'' [Some ''u1'', Some ''u2''] 2), (1, UserJoined ''u1'' 2)])"
  by (simp add: rejoined_def two_joined_eval eval_defs)

theorem C6_register_idempotent_witness:
  "register 3000 0 (Some ''u1'') (Some ''m1'') two_joined =
     (rejoined, [(0, Joined ''m1'' ''u1'' [Some ''u1'', Some ''u2''] 2), (1, UserJoined ''u1'' 2)]) \<and>
   (\<exists>s2 rest2. register 4000 0 (Some ''u1'') (Some ''m1'') rejoined =
       (s2, (0, Joined ''m1'' ''u1'' [Some ''u1'', Some ''u2''] 2) # rest2) \<and>
       matches s2 = matches rejoined)"
  using C6_register_idempotent [OF two_joined_again, of 4000] two_joined_again by simp

subsection \<open>Routing to a user who is not connected\<close>

text \<open>
  \<^bold>\<open>C2.\<close> When the addressed userId has no live connection (no entry in the user index, or
  an entry whose socket is not connected), \<^verbatim>\<open>offer\<close> and \<^verbatim>\<open>initiate-call\<close> emit exactly one
  event, an \<^verbatim>\<open>error\<close> of type \<^verbatim>\<open>user_offline\<close> to the sender; \<^verbatim>\<open>answer\<close> and
  \<^verbatim>\<open>ice-candidate\<close> emit nothing at all. In all four cases nothing is sent to any other
  connection and the state is unchanged.
\<close>

theorem C2_offline_routing:
  assumes "live_target s to = None"
  shows "offer sk p to s = (s, [(sk, Error ''user_offline'' ''Target user not found'')]) \<and>
         initiate_call now sk to s = (s, [(sk, Error ''user_offline'' ''Target user is not connected'')]) \<and>
         answer sk p to s = (s, []) \<and> ice_candidate sk p to s = (s, [])"
  using assms by (simp add: offer_def initiate_call_def answer_def ice_candidate_def)

theorem C2_offline_routing_witness:
  "live_target two_joined (Some ''u9'') = None \<and>
   offer 0 ''sdp'' (Some ''u9'') two_joined = (two_joined, [(0, Error ''user_offline'' ''Target user not found'')]) \<and>
   initiate_call 5000 0 (Some ''u9'') two_joined = (two_joined, [(0, Error ''user_offline'' ''Target user is not connected'')]) \<and>
   answer 0 ''sdp'' (Some ''u9'') two_joined = (two_joined, []) \<and>
   ice_candidate 0 ''sdp'' (Some ''u9'') two_joined = (two_joined, [])"
  using C2_offline_routing [OF two_joined_offline, of 0 "''sdp''" 5000] two_joined_offline
  by simp

text \<open>
  The claim as stated asks for one error event from each of the four messages. An \<^verbatim>\<open>answer\<close>
  and an \<^verbatim>\<open>ice-candidate\<close> for the unknown user \<open>u9\<close> give the sender no error event.
\<close>

theorem C2_counterexample:
  "live_target two_joined (Some ''u9'') = None \<and>
   length (errors_to 0 (snd (handle 5000 (AnswerEv 0 ''sdp'' (Some ''u9'')) two_joined))) \<noteq> 1 \<and>
   length (errors_to 0 (snd (handle 5000 (IceCandidateEv 0 ''cand'' (Some ''u9'')) two_joined))) \<noteq> 1"
  by (simp add: two_joined_eval live_target_def on_socket_def is_connected_def answer_def ice_candidate_def errors_to_def)

text \<open>
  \<^bold>\<open>C8.\<close> When the addressed userId has no live connection, \<^verbatim>\<open>accept-call\<close> and
  \<^verbatim>\<open>reject-call\<close> emit nothing and leave the state unchanged. \<^verbatim>\<open>end-call\<close> leaves the state
  unchanged and sends the sender nothing and nobody an error, but its second half (lines
  337--342) still sends \<^verbatim>\<open>call-ended\<close> to the other sockets in the room of the sender's match.
  None of the three handlers has a statement that can throw.
\<close>

theorem C8_offline_target_silent:
  assumes "live_target s to = None"
  shows "accept_call sk to s = (s, []) \<and> reject_call sk to reason s = (s, []) \<and>
         fst (end_call sk to s) = s \<and>
         snd (end_call sk to s) =
           (case matchId_of s sk of None \<Rightarrow> []
            | Some m \<Rightarrow> if m = [] then [] else emit_to_room s sk m (CallEnded (userId_of s sk))) \<and>
         errors_to sk (snd (end_call sk to s)) = [] \<and>
         filter (\<lambda>e. fst e = sk \<or> is_error (snd e)) (snd (end_call sk to s)) = []"
proof -
  have a: "accept_call sk to s = (s, [])"
    using assms by (simp add: accept_call_def)
  have r: "reject_call sk to reason s = (s, [])"
    using assms by (simp add: reject_call_def)
  have e1: "fst (end_call sk to s) = s"
    by (simp add: end_call_def)
  have e2: "snd (end_call sk to s) =
           (case matchId_of s sk of None \<Rightarrow> []
            | Some m \<Rightarrow> if m = [] then [] else emit_to_room s sk m (CallEnded (userId_of s sk)))"
    using assms by (simp add: end_call_def)
  have e3: "filter (\<lambda>e. fst e = sk \<or> is_error (snd e)) (snd (end_call sk to s)) = []"
    unfolding e2 by (auto simp: emit_to_room_def is_error_def filter_empty_conv split: option.splits)
  have e4: "errors_to sk (snd (end_call sk to s)) = []"
    using e3 by (auto simp: errors_to_def filter_empty_conv)
  from a r e1 e2 e3 e4 show ?thesis by blast
qed

theorem C8_offline_target_silent_witness:
  "live_target two_joined (Some ''u9'') = None \<and>
   accept_call 0 (Some ''u9'') two_joined = (two_joined, []) \<and>
   reject_call 0 (Some ''u9'') None two_joined = (two_joined, []) \<and>
   end_call 0 (Some ''u9'') two_joined = (two_joined, [(1, CallEnded (Some ''u1''))])"
proof -
  have "end_call 0 (Some ''u9'') two_joined = (two_joined, [(1, CallEnded (Some ''u1''))])"
    using C8_offline_target_silent [OF two_joined_offline, of 0 None]
    by (simp add: prod_eq_iff) (simp add: two_joined_eval eval_defs)
  then show ?thesis
    using C8_offline_target_silent [OF two_joined_offline, of 0 None] two_joined_offline by simp
qed

text \<open>
  The claim as stated calls all three operations a no-op. An \<^verbatim>\<open>end-call\<close> for the unknown
  user \<open>u9\<close>, sent by the first member of the match, reaches the second member.
\<close>

theorem C8_counterexample:
  "live_target two_joined (Some ''u9'') = None \<and>
   snd (handle 5000 (EndCall 0 (Some ''u9'')) two_joined) = [(1, CallEnded (Some ''u1''))]"
  by (simp add: two_joined_eval eval_defs end_call_def)

subsection \<open>Activity timestamps\<close>




subsection \<open>Provider errors\<close>

lemma not_closed: "r \<noteq> CLOSED \<longleftrightarrow> r \<in> set [CONNECTING, OPEN, CLOSING]"
  by (cases r) simp_all

lemma handle_dg_error:
  assumes "w < length (providers s)" and "readyState (providers s ! w) \<noteq> CLOSED"
  shows "handle now (DgError w message) s =
           (set_ready w CLOSING s, [(owner (providers s ! w), TranscriptionError message)])"
  using assms
  by (simp add: on_provider_def dg_error_def not_closed [symmetric] del: set_simps)

lemma handle_dg_close:
  assumes "w < length (providers s)" and "readyState (providers s ! w) \<noteq> CLOSED"
  shows "handle now (DgClose w code reason) s =
           ((set_ready w CLOSED s)
              \<lparr>deepgramConnections := AList.delete (owner (providers s ! w)) (deepgramConnections s)\<rparr>,
            [(owner (providers s ! w), TranscriptionClosed code reason)])"
  using assms
  by (simp add: on_provider_def dg_close_def set_ready_def not_closed [symmetric] del: set_simps)

text \<open>
  \<^bold>\<open>C4.\<close> A provider socket that is not closed reports an error, and its \<^verbatim>\<open>close\<close> event
  follows. At the error the socket is closing and the listener of lines 467--470 sends
  \<^verbatim>\<open>transcription:error\<close> with the error's message to the connection that opened it. At the
  \<^verbatim>\<open>close\<close> event the listener of lines 460--465 takes the session of that connection out of
  the session table and tells the connection so; the provider socket is closed. Neither step
  touches the socket store, the match table, the metadata, the two indexes or the rooms: the
  parent connection stays as it was.
\<close>

theorem C4_provider_error:
  assumes "w < length (providers s)" and "readyState (providers s ! w) \<noteq> CLOSED"
      and "handle now (DgError w message) s = (s1, out1)"
      and "handle later (DgClose w code reason) s1 = (s2, out2)"
  shows "out1 = [(owner (providers s ! w), TranscriptionError message)] \<and>
         readyState (providers s1 ! w) = CLOSING \<and>
         out2 = [(owner (providers s ! w), TranscriptionClosed code reason)] \<and>
         map_of (deepgramConnections s2) (owner (providers s ! w)) = None \<and>
         readyState (providers s2 ! w) = CLOSED \<and>
         sockets s2 = sockets s \<and> matches s2 = matches s \<and> matchMetadata s2 = matchMetadata s \<and>
         userSockets s2 = userSockets s \<and> socketToUser s2 = socketToUser s \<and> rooms s2 = rooms s"
proof -
  from handle_dg_error [OF assms(1,2), of now message] assms(3)
  have s1: "s1 = set_ready w CLOSING s"
    and out1: "out1 = [(owner (providers s ! w), TranscriptionError message)]"
    by simp_all
  have w1: "w < length (providers s1)" and r1: "readyState (providers s1 ! w) = CLOSING"
    and o1: "owner (providers s1 ! w) = owner (providers s ! w)"
    using assms(1) by (simp_all add: s1 set_ready_def)
  from r1 have "readyState (providers s1 ! w) \<noteq> CLOSED" by simp
  from handle_dg_close [OF w1 this, of later code reason] assms(4)
  have s2: "s2 = (set_ready w CLOSED s1)
              \<lparr>deepgramConnections := AList.delete (owner (providers s ! w)) (deepgramConnections s1)\<rparr>"
    and out2: "out2 = [(owner (providers s ! w), TranscriptionClosed code reason)]"
    by (simp_all add: o1)
  have "map_of (deepgramConnections s2) (owner (providers s ! w)) = None"
    by (simp add: s2 delete_conv')
  moreover have "readyState (providers s2 ! w) = CLOSED"
    using w1 by (simp add: s2 set_ready_def)
  moreover have "sockets s2 = sockets s \<and> matches s2 = matches s \<and> matchMetadata s2 = matchMetadata s \<and>
         userSockets s2 = userSockets s \<and> socketToUser s2 = socketToUser s \<and> rooms s2 = rooms s"
    by (simp add: s2 s1 set_ready_def)
  ultimately show ?thesis using out1 r1 out2 by blast
qed

theorem C4_provider_error_witness:
  "0 < length (providers transcribing) \<and> readyState (providers transcribing ! 0) \<noteq> CLOSED \<and>
   deepgramConnections transcribing = [(0, 0)] \<and>
   snd (handle 30 (DgError 0 ''boom'') transcribing) = [(0, TranscriptionError ''boom'')] \<and>
   snd (handle 40 (DgClose 0 1011 ''gone'') (fst (handle 30 (DgError 0 ''boom'') transcribing)))
     = [(0, TranscriptionClosed 1011 ''gone'')] \<and>
   map_of (deepgramConnections
     (fst (handle 40 (DgClose 0 1011 ''gone'') (fst (handle 30 (DgError 0 ''boom'') transcribing))))) 0 = None \<and>
   readyState (providers
     (fst (handle 40 (DgClose 0 1011 ''gone'') (fst (handle 30 (DgError 0 ''boom'') transcribing)))) ! 0) = CLOSED \<and>
   sockets (fst (handle 40 (DgClose 0 1011 ''gone'') (fst (handle 30 (DgError 0 ''boom'') transcribing))))
     = [\<lparr>userId = None, matchId = None, connected = True\<rparr>]"
proof -
  have h1: "0 < length (providers transcribing)" and h2: "readyState (providers transcribing ! 0) \<noteq> CLOSED"
    and o: "owner (providers transcribing ! 0) = 0"
    and d: "deepgramConnections transcribing = [(0, 0)]"
    and k: "sockets transcribing = [\<lparr>userId = None, matchId = None, connected = True\<rparr>]"
    by (simp_all add: transcribing_eval)
  from C4_provider_error [where now = 30 and message = "''boom''" and later = 40 and code = 1011
      and reason = "''gone''", OF h1 h2 prod.collapse [symmetric] prod.collapse [symmetric]] h1 h2 o d k
  show ?thesis by (simp del: handle.simps)
qed

subsection \<open>Periodic cleanup\<close>

lemma reap_entries_frame:
  "userSockets (reap_entries now es s) = userSockets s \<and>
   socketToUser (reap_entries now es s) = socketToUser s \<and>
   deepgramConnections (reap_entries now es s) = deepgramConnections s \<and>
   sockets (reap_entries now es s) = sockets s \<and>
   rooms (reap_entries now es s) = rooms s \<and>
   providers (reap_entries now es s) = providers s \<and>
   DEEPGRAM_API_KEY (reap_entries now es s) = DEEPGRAM_API_KEY s"
  by (induction now es s rule: reap_entries.induct) (auto split: option.splits)

lemma reap_entries_tables:
  assumes "distinct (map fst es)"
  shows "matches (reap_entries now es s) = filter (\<lambda>e. \<not> doomed now es s (fst e)) (matches s) \<and>
         matchMetadata (reap_entries now es s) = filter (\<lambda>e. \<not> doomed now es s (fst e)) (matchMetadata s)"
  using assms
proof (induction es arbitrary: s)
  case Nil
  then show ?case by (simp add: doomed_def)
next
  case (Cons e es)
  obtain m md where e: "e = (m, md)" by (cases e)
  from Cons.prems e have fresh: "map_of es m = None" and dist: "distinct (map fst es)"
    by (auto simp: map_of_eq_None_iff)
  show ?case
  proof (cases "now - lastActivity md > STALE_TIMEOUT \<and> map_of (matches s) m = Some []")
    case True
    define s' where "s' = s\<lparr>matches := AList.delete m (matches s),
                             matchMetadata := AList.delete m (matchMetadata s)\<rparr>"
    have step: "reap_entries now (e # es) s = reap_entries now es s'"
      using True by (simp add: e s'_def)
    have d: "\<And>k. (k \<noteq> m \<and> \<not> doomed now es s' k) = (\<not> doomed now (e # es) s k)"
      using True by (auto simp: doomed_def e s'_def STALE_TIMEOUT_def delete_conv' split: option.splits)
    have del: "\<And>al :: (string \<times> 'v) list. AList.delete m al = filter (\<lambda>x. fst x \<noteq> m) al"
      by (auto simp: AList.delete_eq intro: filter_cong)
    have ms: "matches s' = filter (\<lambda>x. fst x \<noteq> m) (matches s)"
      and mm: "matchMetadata s' = filter (\<lambda>x. fst x \<noteq> m) (matchMetadata s)"
      by (simp_all add: s'_def del)
    have "filter (\<lambda>x. \<not> doomed now es s' (fst x)) (matches s')
            = filter (\<lambda>x. \<not> doomed now (e # es) s (fst x)) (matches s)"
      unfolding ms filter_filter by (rule filter_cong [OF refl]) (simp add: d)
    moreover have "filter (\<lambda>x. \<not> doomed now es s' (fst x)) (matchMetadata s')
            = filter (\<lambda>x. \<not> doomed now (e # es) s (fst x)) (matchMetadata s)"
      unfolding mm filter_filter by (rule filter_cong [OF refl]) (simp add: d)
    ultimately show ?thesis
      using Cons.IH [OF dist, of s'] by (simp add: step)
  next
    case False
    have step: "reap_entries now (e # es) s = reap_entries now es s"
      using False by (auto simp: e split: option.splits)
    have d: "\<And>k. doomed now es s k = doomed now (e # es) s k"
      using False fresh by (auto simp: doomed_def e STALE_TIMEOUT_def split: option.splits)
    show ?thesis
      using Cons.IH [OF dist, of s] by (simp add: step d)
  qed
qed

lemma map_of_filter_key:
  "map_of (filter (\<lambda>e. P (fst e)) al) k = (if P k then map_of al k else None)"
  by (induction al) auto

text \<open>
  \<^bold>\<open>C9.\<close> In a state whose metadata table has one entry per key, as a \<^verbatim>\<open>Map\<close> has, a run of
  the cleanup deletes from the match table and from the metadata table exactly the keys of
  the matches that have no member and whose \<^verbatim>\<open>lastActivity\<close> is more than 30 minutes old.
  All other entries of both tables stay, in their order and with their values, and nothing
  else in the state changes.
\<close>

theorem C9_reaper:
  assumes "distinct (map fst (matchMetadata s))"
  shows "matches (reaper now s) = filter (\<lambda>e. \<not> stale_and_empty now s (fst e)) (matches s) \<and>
         matchMetadata (reaper now s) = filter (\<lambda>e. \<not> stale_and_empty now s (fst e)) (matchMetadata s) \<and>
         (\<forall>m. map_of (matches (reaper now s)) m =
                (if stale_and_empty now s m then None else map_of (matches s) m) \<and>
              map_of (matchMetadata (reaper now s)) m =
                (if stale_and_empty now s m then None else map_of (matchMetadata s) m)) \<and>
         userSockets (reaper now s) = userSockets s \<and>
         socketToUser (reaper now s) = socketToUser s \<and>
         deepgramConnections (reaper now s) = deepgramConnections s \<and>
         sockets (reaper now s) = sockets s \<and>
         rooms (reaper now s) = rooms s \<and>
         providers (reaper now s) = providers s"
proof -
  note t = reap_entries_tables [OF assms, of now s, folded reaper_def stale_and_empty_def]
  have "\<forall>m. map_of (matches (reaper now s)) m =
                (if stale_and_empty now s m then None else map_of (matches s) m) \<and>
              map_of (matchMetadata (reaper now s)) m =
                (if stale_and_empty now s m then None else map_of (matchMetadata s) m)"
    using t by (simp add: map_of_filter_key [where P = "\<lambda>k. \<not> stale_and_empty now s k"])
  with t reap_entries_frame [of now "matchMetadata s" s, folded reaper_def]
  show ?thesis by simp
qed

theorem C9_reaper_witness:
  "distinct (map fst (matchMetadata abandoned)) \<and>
   matches (reaper 2000000 abandoned) = [(''busy'', [0]), (''new'', [])] \<and>
   matchMetadata (reaper 2000000 abandoned) =
     [(''busy'', \<lparr>createdAt = 0, lastActivity = 1000\<rparr>), (''new'', \<lparr>createdAt = 0, lastActivity = 2000000\<rparr>)]"
proof -
  have h: "distinct (map fst (matchMetadata abandoned))"
    by (simp add: abandoned_def)
  from C9_reaper [OF h, of 2000000] h show ?thesis
    by (simp add: stale_and_empty_def doomed_def abandoned_def)
qed

subsection \<open>Which handlers change the match table, the rooms or the socket store\<close>

lemma set_update_subset: "set (AList.update k v al) \<subseteq> insert (k, v) (set al)"
  by (induction al) auto

lemma set_delete_subset: "set (AList.delete k al) \<subseteq> set al"
  by (auto simp: AList.delete_eq)

lemma touch_core [simp]: "core (touch now sk s) = core s"
  by (simp add: core_def touch_def matchId_of_def split: option.splits)

lemma close_existing_core [simp]: "core (close_existing sk s) = core s"
  by (simp add: core_def close_existing_def split: option.splits)

lemma set_ready_core [simp]: "core (set_ready w r s) = core s"
  by (simp add: core_def set_ready_def)

lemma on_socket_core:
  assumes "\<And>s. core (fst (h s)) = core s"
  shows "core (fst (on_socket sk s h)) = core s"
  using assms by (simp add: on_socket_def)

lemma on_provider_core:
  assumes "\<And>sk s. core (fst (h sk s)) = core s"
  shows "core (fst (on_provider w allowed s h)) = core s"
  using assms by (simp add: on_provider_def)

lemma initiate_call_core: "core (fst (initiate_call now sk to s)) = core s"
  by (simp add: initiate_call_def split: option.splits)

lemma accept_call_core: "core (fst (accept_call sk to s)) = core s"
  by (simp add: accept_call_def split: option.splits)

lemma reject_call_core: "core (fst (reject_call sk to reason s)) = core s"
  by (simp add: reject_call_def split: option.splits)

lemma end_call_core: "core (fst (end_call sk to s)) = core s"
  by (simp add: end_call_def)

lemma offer_core: "core (fst (offer sk p to s)) = core s"
  by (simp add: offer_def split: option.splits)

lemma answer_core: "core (fst (answer sk p to s)) = core s"
  by (simp add: answer_def split: option.splits)

lemma ice_candidate_core: "core (fst (ice_candidate sk p to s)) = core s"
  by (simp add: ice_candidate_def split: option.splits)

lemma open_session_core [simp]: "core (open_session sk lang s) = core s"
  by (simp add: core_def open_session_def Let_def)

lemma transcription_start_core: "core (fst (transcription_start sk lang s)) = core s"
  by (simp add: transcription_start_def)

lemma audio_chunk_core: "core (fst (audio_chunk sk d s)) = core s"
  by (simp add: audio_chunk_def core_def split: option.splits)

lemma transcription_stop_core: "core (fst (transcription_stop sk s)) = core s"
  by (simp add: transcription_stop_def)

lemma dg_open_core: "core (fst (dg_open sk s)) = core s"
  by (simp add: dg_open_def)

lemma dg_message_core: "core (fst (dg_message now sk tr fin s)) = core s"
  by (simp add: dg_message_def split: option.splits)

lemma dg_close_core: "core (fst (dg_close sk code reason s)) = core s"
  by (simp add: dg_close_def core_def)

lemma dg_error_core: "core (fst (dg_error sk message s)) = core s"
  by (simp add: dg_error_def)

lemmas quiet_core = on_socket_core on_provider_core initiate_call_core accept_call_core
  reject_call_core end_call_core offer_core answer_core ice_candidate_core
  transcription_start_core audio_chunk_core transcription_stop_core dg_open_core
  dg_message_core dg_close_core dg_error_core

lemma handle_core: "quiet e \<Longrightarrow> core (fst (handle now e s)) = core s"
  by (cases e) (simp_all add: quiet_core)

lemma capacity_core: "core s' = core s \<Longrightarrow> capacity s' = capacity s"
  by (simp add: core_def capacity_def)

lemma members_live_core: "core s' = core s \<Longrightarrow> members_live s' = members_live s"
  by (simp add: core_def members_live_def is_connected_def room_members_def)

subsection \<open>The two handlers that change membership, case by case\<close>

lemma register_unfold:
  assumes "u \<noteq> []" "m \<noteq> []" and "s3 = init_match now m (store_user sk u m s)"
  shows "register now sk (Some u) (Some m) s =
     (if 2 \<le> length (match_members s3 m) \<and> sk \<notin> set (match_members s3 m)
      then (s3, [(sk, Error ''match_full'' ''This match already has 2 participants'')])
      else (case map_of (matchMetadata s3) m of
              None \<Rightarrow> (add_to_match sk m s3, [(sk, Error ''server_error'' ''Failed to register'')])
            | Some md \<Rightarrow>
                ((add_to_match sk m s3)\<lparr>matchMetadata := AList.update m (md\<lparr>lastActivity := now\<rparr>) (matchMetadata s3)\<rparr>,
                 (sk, Joined m u (map (userId_of s3) (set_add sk (match_members s3 m)))
                        (length (set_add sk (match_members s3 m))))
                 # emit_to_room (add_to_match sk m s3) sk m
                     (UserJoined u (length (set_add sk (match_members s3 m)))))))"
proof -
  have u: "userId_of ((add_to_match sk m t)\<lparr>matchMetadata := x\<rparr>) = userId_of t" for x t
    by (simp add: userId_of_def fun_eq_iff)
  have e: "emit_to_room ((add_to_match sk m t)\<lparr>matchMetadata := x\<rparr>) = emit_to_room (add_to_match sk m t)" for x t
    by (simp add: emit_to_room_def room_members_def fun_eq_iff)
  show ?thesis
    unfolding assms(3)
    using assms(1,2) by (simp add: register_def Let_def add_to_match_members u e split: option.splits)
qed

lemma register_invalid:
  assumes "\<not> (\<exists>u m. uo = Some u \<and> mo = Some m \<and> u \<noteq> [] \<and> m \<noteq> [])"
  shows "register now sk uo mo s = (s, [(sk, Error ''validation'' ''Missing userId or matchId'')])"
  using assms by (auto simp: register_def split: option.splits)

lemma close_existing_fields [simp]:
  "matches (close_existing sk s) = matches s"
  "matchMetadata (close_existing sk s) = matchMetadata s"
  "userSockets (close_existing sk s) = userSockets s"
  "socketToUser (close_existing sk s) = socketToUser s"
  "sockets (close_existing sk s) = sockets s"
  "rooms (close_existing sk s) = rooms s"
  "DEEPGRAM_API_KEY (close_existing sk s) = DEEPGRAM_API_KEY s"
  by (simp_all add: close_existing_def split: option.splits)

lemma close_existing_reads [simp]:
  "userId_of (close_existing sk s) = userId_of s"
  "matchId_of (close_existing sk s) = matchId_of s"
  by (simp_all add: userId_of_def matchId_of_def fun_eq_iff)

lemma disconnect_registered:
  assumes "userId_of s sk = Some u" "u \<noteq> []" "matchId_of s sk = Some m" "m \<noteq> []"
      and "map_of (matches s) m = Some xs"
      and "s3 = (close_existing sk s)
                  \<lparr>userSockets := AList.delete u (userSockets s),
                   socketToUser := AList.delete sk (socketToUser s),
                   matches := AList.update m (removeAll sk xs) (matches s)\<rparr>"
  shows "disconnect sk s =
           (if removeAll sk xs = []
            then s3\<lparr>matches := AList.delete m (matches s3),
                    matchMetadata := AList.delete m (matchMetadata s)\<rparr>
            else s3,
            emit_to_room s sk m (UserLeft u) @ emit_to_room s sk m (CallEnded (Some u)))"
proof -
  have m: "matchId_of ((close_existing sk s)\<lparr>userSockets := a, socketToUser := b\<rparr>) sk = Some m" for a b
    using assms(3) by (simp add: matchId_of_def split: if_splits)
  show ?thesis
    using assms(1,2,4,5)
    by (simp add: disconnect_def Let_def m assms(6) emit_to_room_def room_members_def)
qed

lemma disconnect_unregistered:
  assumes "\<not> (\<exists>u. userId_of s sk = Some u \<and> u \<noteq> [])"
  shows "disconnect sk s = (close_existing sk s, [])"
  using assms by (auto simp: disconnect_def Let_def split: option.splits)

lemma disconnect_no_match:
  assumes "userId_of s sk = Some u" "u \<noteq> []"
      and "\<not> (\<exists>m xs. matchId_of s sk = Some m \<and> m \<noteq> [] \<and> map_of (matches s) m = Some xs)"
  shows "disconnect sk s =
           ((close_existing sk s)\<lparr>userSockets := AList.delete u (userSockets s),
                                    socketToUser := AList.delete sk (socketToUser s)\<rparr>, [])"
proof -
  have m: "matchId_of ((close_existing sk s)\<lparr>userSockets := a, socketToUser := b\<rparr>) sk = matchId_of s sk" for a b
    by (simp add: matchId_of_def)
  show ?thesis
    using assms by (auto simp: disconnect_def Let_def m split: option.splits)
qed

subsection \<open>At most two members\<close>

lemma set_add_set [simp]: "set (set_add x xs) = insert x (set xs)"
  by (auto simp: set_add_def)

lemma set_add_distinct: "distinct xs \<Longrightarrow> distinct (set_add x xs)"
  by (simp add: set_add_def)

lemma set_add_length: "length (set_add x xs) = (if x \<in> set xs then length xs else Suc (length xs))"
  by (simp add: set_add_def)

lemma capacity_update:
  "capacity s \<Longrightarrow> distinct xs \<Longrightarrow> length xs \<le> 2 \<Longrightarrow> matches s' = AList.update m xs (matches s) \<Longrightarrow>
     capacity s'"
  using set_update_subset [of m xs "matches s"] by (auto simp: capacity_def)

lemma capacity_delete:
  "capacity s \<Longrightarrow> matches s' = AList.delete m (matches s) \<Longrightarrow> capacity s'"
  using set_delete_subset [of m "matches s"] by (auto simp: capacity_def)

lemma capacity_members:
  "capacity s \<Longrightarrow> distinct (match_members s m) \<and> length (match_members s m) \<le> 2"
  by (auto simp: capacity_def match_members_def split: option.splits dest!: map_of_SomeD)

lemma capacity_init_match: "capacity s \<Longrightarrow> capacity (init_match now m s)"
proof (cases "map_of (matches s) m = None")
  case True
  assume "capacity s"
  then show ?thesis
    by (rule capacity_update [where xs = "[]" and m = m]) (simp_all add: init_match_def True)
next
  case False
  assume "capacity s"
  with False show ?thesis by (auto simp: init_match_def)
qed

lemma capacity_add_to_match:
  assumes "capacity s" and "\<not> (2 \<le> length (match_members s m) \<and> sk \<notin> set (match_members s m))"
  shows "capacity (add_to_match sk m s)"
proof -
  from capacity_members [OF assms(1), of m] assms(2)
  have "distinct (set_add sk (match_members s m))" and "length (set_add sk (match_members s m)) \<le> 2"
    by (auto simp: set_add_distinct set_add_length)
  with assms(1) show ?thesis
    by (rule capacity_update) simp
qed

lemma capacity_register: "capacity s \<Longrightarrow> capacity (fst (register now sk uo mo s))"
proof -
  assume c: "capacity s"
  show ?thesis
  proof (cases "\<exists>u m. uo = Some u \<and> mo = Some m \<and> u \<noteq> [] \<and> m \<noteq> []")
    case False
    with c show ?thesis by (simp add: register_invalid)
  next
    case True
    then obtain u m where um: "uo = Some u" "mo = Some m" "u \<noteq> []" "m \<noteq> []" by blast
    define s3 where "s3 = init_match now m (store_user sk u m s)"
    have "capacity (store_user sk u m s)"
      using c by (simp add: capacity_def)
    then have c3: "capacity s3"
      unfolding s3_def by (rule capacity_init_match)
    note r = register_unfold [OF um(3,4) s3_def]
    show ?thesis
    proof (cases "2 \<le> length (match_members s3 m) \<and> sk \<notin> set (match_members s3 m)")
      case True
      with c3 show ?thesis by (simp add: um r)
    next
      case False
      then have c4: "capacity (add_to_match sk m s3)"
        by (rule capacity_add_to_match [OF c3])
      have "matches (fst (register now sk uo mo s)) = matches (add_to_match sk m s3)"
        using False by (auto simp: um r split: option.splits)
      with c4 show ?thesis by (simp add: capacity_def)
    qed
  qed
qed

lemma capacity_disconnect: "capacity s \<Longrightarrow> capacity (fst (disconnect sk s))"
proof -
  assume c: "capacity s"
  show ?thesis
  proof (cases "\<exists>u. userId_of s sk = Some u \<and> u \<noteq> []")
    case False
    with c show ?thesis by (simp add: disconnect_unregistered capacity_def)
  next
    case True
    then obtain u where u: "userId_of s sk = Some u" "u \<noteq> []" by blast
    show ?thesis
    proof (cases "\<exists>m xs. matchId_of s sk = Some m \<and> m \<noteq> [] \<and> map_of (matches s) m = Some xs")
      case False
      with c show ?thesis by (simp add: disconnect_no_match [OF u] capacity_def)
    next
      case True
      then obtain m xs where m: "matchId_of s sk = Some m" "m \<noteq> []" "map_of (matches s) m = Some xs"
        by blast
      define s3 where "s3 = (close_existing sk s)
                  \<lparr>userSockets := AList.delete u (userSockets s),
                   socketToUser := AList.delete sk (socketToUser s),
                   matches := AList.update m (removeAll sk xs) (matches s)\<rparr>"
      from m(3) c have "distinct xs \<and> length xs \<le> 2"
        by (auto simp: capacity_def dest!: map_of_SomeD)
      then have "distinct (removeAll sk xs)" and "length (removeAll sk xs) \<le> 2"
        by (auto simp: distinct_removeAll intro: le_trans [OF length_removeAll_less_eq])
      with c have c3: "capacity s3"
        by (rule capacity_update) (simp add: s3_def)
      then have "capacity (s3\<lparr>matches := AList.delete m (matches s3),
                               matchMetadata := AList.delete m (matchMetadata s)\<rparr>)"
        by (rule capacity_delete) simp
      with c3 show ?thesis
        by (simp add: disconnect_registered [OF u m s3_def])
    qed
  qed
qed

lemma reap_entries_subset: "set (matches (reap_entries now es s)) \<subseteq> set (matches s)"
proof (induction now es s rule: reap_entries.induct)
  case (1 now s)
  then show ?case by simp
next
  case (2 now m md es s)
  then show ?case
    using set_delete_subset [of m "matches s"]
    by (auto split: option.splits if_splits)
qed

lemma capacity_reaper: "capacity s \<Longrightarrow> capacity (reaper now s)"
  using reap_entries_subset [of now "matchMetadata s" s] by (auto simp: capacity_def reaper_def)

lemma capacity_handle: "capacity s \<Longrightarrow> capacity (fst (handle now e s))"
proof (cases "quiet e")
  case True
  assume "capacity s"
  with capacity_core [OF handle_core [OF True, of now s]] show ?thesis by simp
next
  case False
  assume c: "capacity s"
  from False show ?thesis
  proof (cases e)
    case Connection
    with c show ?thesis by (simp add: capacity_def)
  next
    case (Register sk u m)
    with c show ?thesis by (simp add: on_socket_def capacity_register)
  next
    case (Disconnect sk)
    from c have "capacity (socket_onclose sk s)" by (simp add: capacity_def socket_onclose_def)
    with Disconnect c show ?thesis by (simp add: on_socket_def capacity_disconnect)
  next
    case Reaper
    with c show ?thesis by (simp add: capacity_reaper)
  qed simp_all
qed

lemma capacity_run: "capacity s \<Longrightarrow> capacity (run s evs)"
  by (induction s evs rule: run.induct) (simp_all add: capacity_handle)

lemma capacity_init: "capacity (init key)"
  by (simp add: capacity_def init_def)

subsection \<open>Connected members are in the room of their match\<close>

lemma members_liveD:
  "members_live s \<Longrightarrow> map_of (matches s) m = Some xs \<Longrightarrow> r \<in> set xs \<Longrightarrow>
     r < length (sockets s) \<and> (is_connected s r \<longrightarrow> r \<in> set (room_members s m))"
  by (auto simp: members_live_def)

lemma members_live_subset:
  assumes "members_live s"
      and "\<And>m xs. map_of (matches s') m = Some xs \<Longrightarrow> \<exists>ys. map_of (matches s) m = Some ys \<and> set xs \<subseteq> set ys"
      and "sockets s' = sockets s" and "rooms s' = rooms s"
  shows "members_live s'"
  unfolding members_live_def
proof (intro allI impI ballI)
  fix m xs r assume a: "map_of (matches s') m = Some xs" "r \<in> set xs"
  from assms(2) [OF a(1)] a(2) obtain ys where "map_of (matches s) m = Some ys" "r \<in> set ys" by blast
  from members_liveD [OF assms(1) this]
  show "r < length (sockets s') \<and> (is_connected s' r \<longrightarrow> r \<in> set (room_members s' m))"
    by (simp add: assms(3,4) is_connected_def room_members_def)
qed

lemma members_live_connection:
  assumes "members_live s"
  shows "members_live (s\<lparr>sockets := sockets s @ [x]\<rparr>)"
  unfolding members_live_def
proof (intro allI impI ballI)
  fix m xs r assume a: "map_of (matches (s\<lparr>sockets := sockets s @ [x]\<rparr>)) m = Some xs" "r \<in> set xs"
  then have "map_of (matches s) m = Some xs" by simp
  from members_liveD [OF assms this a(2)]
  show "r < length (sockets (s\<lparr>sockets := sockets s @ [x]\<rparr>)) \<and>
        (is_connected (s\<lparr>sockets := sockets s @ [x]\<rparr>) r \<longrightarrow> r \<in> set (room_members (s\<lparr>sockets := sockets s @ [x]\<rparr>) m))"
    by (auto simp: is_connected_def room_members_def nth_append)
qed

lemma is_connected_store_user [simp]: "is_connected (store_user sk u m s) r = is_connected s r"
  by (cases "r = sk") (auto simp: is_connected_def)

lemma members_live_store_user: "members_live s \<Longrightarrow> members_live (store_user sk u m s)"
  by (simp add: members_live_def room_members_def)

lemma members_live_init_match: "members_live s \<Longrightarrow> members_live (init_match now m s)"
  by (auto simp: members_live_def init_match_def room_members_def is_connected_def update_conv')

lemma room_members_add_to_match:
  "room_members (add_to_match sk m s) k = (if k = m then set_add sk (room_members s m) else room_members s k)"
  by (simp add: add_to_match_def socket_join_def room_members_def update_conv')

lemma is_connected_add_to_match [simp]: "is_connected (add_to_match sk m s) r = is_connected s r"
  by (simp add: is_connected_def)

lemma members_live_add_to_match:
  assumes "members_live s" and "sk < length (sockets s)"
  shows "members_live (add_to_match sk m s)"
  unfolding members_live_def
proof (intro allI impI ballI)
  fix k xs r assume a: "map_of (matches (add_to_match sk m s)) k = Some xs" "r \<in> set xs"
  show "r < length (sockets (add_to_match sk m s)) \<and>
        (is_connected (add_to_match sk m s) r \<longrightarrow> r \<in> set (room_members (add_to_match sk m s) k))"
  proof (cases "k = m")
    case False
    with a have "map_of (matches s) k = Some xs" by (simp add: update_conv')
    from members_liveD [OF assms(1) this a(2)] False show ?thesis
      by (simp add: room_members_add_to_match)
  next
    case True
    with a have xs: "xs = set_add sk (match_members s m)" by (simp add: update_conv')
    show ?thesis
    proof (cases "r = sk")
      case True
      with assms(2) \<open>k = m\<close> show ?thesis by (simp add: room_members_add_to_match)
    next
      case False
      with a(2) xs obtain ys where "map_of (matches s) m = Some ys" "r \<in> set ys"
        by (auto simp: match_members_def split: option.splits)
      from members_liveD [OF assms(1) this] \<open>k = m\<close> show ?thesis
        by (simp add: room_members_add_to_match)
    qed
  qed
qed

lemma members_live_meta: "members_live (s\<lparr>matchMetadata := x\<rparr>) = members_live s"
  by (simp add: members_live_def is_connected_def room_members_def)

lemma members_live_register:
  assumes "members_live s" and "sk < length (sockets s)"
  shows "members_live (fst (register now sk uo mo s))"
proof (cases "\<exists>u m. uo = Some u \<and> mo = Some m \<and> u \<noteq> [] \<and> m \<noteq> []")
  case False
  with assms show ?thesis by (simp add: register_invalid)
next
  case True
  then obtain u m where um: "uo = Some u" "mo = Some m" "u \<noteq> []" "m \<noteq> []" by blast
  define s3 where "s3 = init_match now m (store_user sk u m s)"
  have l3: "members_live s3"
    unfolding s3_def by (intro members_live_init_match members_live_store_user assms(1))
  have "sk < length (sockets s3)" using assms(2) by (simp add: s3_def)
  with l3 have l4: "members_live (add_to_match sk m s3)"
    by (rule members_live_add_to_match)
  show ?thesis
    using l3 l4 by (simp add: um register_unfold [OF um(3,4) s3_def] members_live_meta split: option.splits)
qed

lemma room_members_onclose: "room_members (socket_onclose sk s) m = removeAll sk (room_members s m)"
proof -
  have "map_of (map (\<lambda>(room, xs). (room, removeAll sk xs)) al) m = map_option (removeAll sk) (map_of al m)"
    for al :: "(string \<times> sid list) list"
    by (induction al) auto
  then show ?thesis
    by (simp add: room_members_def socket_onclose_def split: option.splits)
qed

lemma is_connected_onclose:
  "is_connected (socket_onclose sk s) r = (r \<noteq> sk \<and> is_connected s r)"
  by (cases "r = sk") (auto simp: is_connected_def socket_onclose_def)

lemma members_live_onclose: "members_live s \<Longrightarrow> members_live (socket_onclose sk s)"
  unfolding members_live_def
proof (intro allI impI ballI)
  fix m xs r
  assume l: "\<forall>m xs. map_of (matches s) m = Some xs \<longrightarrow>
               (\<forall>r\<in>set xs. r < length (sockets s) \<and> (is_connected s r \<longrightarrow> r \<in> set (room_members s m)))"
    and a: "map_of (matches (socket_onclose sk s)) m = Some xs" "r \<in> set xs"
  from a have "map_of (matches s) m = Some xs" by (simp add: socket_onclose_def)
  with l a(2) have "r < length (sockets s) \<and> (is_connected s r \<longrightarrow> r \<in> set (room_members s m))" by blast
  then show "r < length (sockets (socket_onclose sk s)) \<and>
        (is_connected (socket_onclose sk s) r \<longrightarrow> r \<in> set (room_members (socket_onclose sk s) m))"
    by (auto simp: is_connected_onclose room_members_onclose) (simp_all add: socket_onclose_def)
qed

lemma members_live_disconnect: "members_live s \<Longrightarrow> members_live (fst (disconnect sk s))"
proof -
  assume l: "members_live s"
  show ?thesis
  proof (cases "\<exists>u. userId_of s sk = Some u \<and> u \<noteq> []")
    case False
    with l show ?thesis
      by (simp add: disconnect_unregistered members_live_def is_connected_def room_members_def)
  next
    case True
    then obtain u where u: "userId_of s sk = Some u" "u \<noteq> []" by blast
    show ?thesis
    proof (cases "\<exists>m xs. matchId_of s sk = Some m \<and> m \<noteq> [] \<and> map_of (matches s) m = Some xs")
      case False
      with l show ?thesis
        by (simp add: disconnect_no_match [OF u] members_live_def is_connected_def room_members_def)
    next
      case True
      then obtain m xs where m: "matchId_of s sk = Some m" "m \<noteq> []" "map_of (matches s) m = Some xs"
        by blast
      define s3 where "s3 = (close_existing sk s)
                  \<lparr>userSockets := AList.delete u (userSockets s),
                   socketToUser := AList.delete sk (socketToUser s),
                   matches := AList.update m (removeAll sk xs) (matches s)\<rparr>"
      have l3: "members_live s3"
        using l
      proof (rule members_live_subset)
        fix k ys assume "map_of (matches s3) k = Some ys"
        then show "\<exists>zs. map_of (matches s) k = Some zs \<and> set ys \<subseteq> set zs"
          using m(3) by (cases "k = m") (auto simp: s3_def update_conv')
      qed (simp_all add: s3_def)
      have "members_live (s3\<lparr>matches := AList.delete m (matches s3),
                             matchMetadata := AList.delete m (matchMetadata s)\<rparr>)"
        using l3
      proof (rule members_live_subset)
        fix k ys
        assume "map_of (matches (s3\<lparr>matches := AList.delete m (matches s3),
                             matchMetadata := AList.delete m (matchMetadata s)\<rparr>)) k = Some ys"
        then show "\<exists>zs. map_of (matches s3) k = Some zs \<and> set ys \<subseteq> set zs"
          by (cases "k = m") (auto simp: delete_conv')
      qed simp_all
      with l3 show ?thesis
        by (simp add: disconnect_registered [OF u m s3_def])
    qed
  qed
qed

lemma reap_entries_kept:
  "map_of (matches (reap_entries now es s)) k = Some xs \<Longrightarrow> map_of (matches s) k = Some xs"
proof (induction now es s rule: reap_entries.induct)
  case (1 now s)
  then show ?case by simp
next
  case (2 now m md es s)
  then show ?case
    by (auto simp: delete_conv' split: option.splits if_splits)
qed

lemma members_live_reaper: "members_live s \<Longrightarrow> members_live (reaper now s)"
proof (erule members_live_subset)
  fix k xs assume "map_of (matches (reaper now s)) k = Some xs"
  then show "\<exists>ys. map_of (matches s) k = Some ys \<and> set xs \<subseteq> set ys"
    by (auto simp: reaper_def dest: reap_entries_kept)
qed (simp_all add: reaper_def reap_entries_frame)

lemma members_live_handle: "members_live s \<Longrightarrow> members_live (fst (handle now e s))"
proof (cases "quiet e")
  case True
  assume "members_live s"
  with members_live_core [OF handle_core [OF True, of now s]] show ?thesis by simp
next
  case False
  assume l: "members_live s"
  from False show ?thesis
  proof (cases e)
    case Connection
    with l show ?thesis by (simp add: members_live_connection)
  next
    case (Register sk u m)
    with l show ?thesis by (simp add: on_socket_def members_live_register is_connected_def)
  next
    case (Disconnect sk)
    with l show ?thesis by (simp add: on_socket_def members_live_disconnect members_live_onclose)
  next
    case Reaper
    with l show ?thesis by (simp add: members_live_reaper)
  qed simp_all
qed

lemma members_live_run: "members_live s \<Longrightarrow> members_live (run s evs)"
  by (induction s evs rule: run.induct) (simp_all add: members_live_handle)

lemma members_live_init: "members_live (init key)"
  by (simp add: members_live_def init_def)

text \<open>
  \<^bold>\<open>C1.\<close> Whatever events the server has handled since it started, every member set in
  the match table is without repetition and has at most two elements. And in any state, a
  registration with non-empty identifiers for a match that has two or more members, from a
  socket that is not one of them, emits exactly one event, the \<^verbatim>\<open>match_full\<close> error to the
  caller, and leaves the match table as it was.
\<close>

theorem C1_match_capacity:
  "(\<forall>e \<in> set (matches (run (init key) evs)). distinct (snd e) \<and> length (snd e) \<le> 2) \<and>
   (map_of (matches s) m = Some xs \<and> 2 \<le> length xs \<and> sk \<notin> set xs \<and> u \<noteq> [] \<and> m \<noteq> [] \<longrightarrow>
      snd (register now sk (Some u) (Some m) s)
        = [(sk, Error ''match_full'' ''This match already has 2 participants'')] \<and>
      matches (fst (register now sk (Some u) (Some m) s)) = matches s)"
proof -
  have "capacity (run (init key) evs)"
    by (intro capacity_run capacity_init)
  then have a: "\<forall>e \<in> set (matches (run (init key) evs)). distinct (snd e) \<and> length (snd e) \<le> 2"
    by (simp add: capacity_def)
  have b: "snd (register now sk (Some u) (Some m) s)
        = [(sk, Error ''match_full'' ''This match already has 2 participants'')] \<and>
      matches (fst (register now sk (Some u) (Some m) s)) = matches s"
    if h: "map_of (matches s) m = Some xs" "2 \<le> length xs" "sk \<notin> set xs" "u \<noteq> []" "m \<noteq> []"
  proof -
    define s3 where "s3 = init_match now m (store_user sk u m s)"
    have i: "s3 = store_user sk u m s"
      unfolding s3_def using h(1) by (simp add: init_match_exists)
    have mm: "match_members s3 m = xs"
      using h(1) by (simp add: i match_members_def)
    show ?thesis
      using h(2,3) by (simp add: register_unfold [OF h(4,5) s3_def] mm) (simp add: i)
  qed
  from a b show ?thesis by blast
qed

theorem C1_match_capacity_witness:
  "matches two_joined = [(''m1'', [0, 1])] \<and>
   distinct (snd (''m1'', [0 :: nat, 1])) \<and> length (snd (''m1'', [0 :: nat, 1])) \<le> 2 \<and>
   map_of (matches two_joined) ''m1'' = Some [0, 1] \<and> 2 \<le> length [0 :: nat, 1] \<and>
   2 \<notin> set [0 :: nat, 1] \<and>
   snd (register 3000 2 (Some ''u3'') (Some ''m1'') two_joined)
     = [(2, Error ''match_full'' ''This match already has 2 participants'')] \<and>
   matches (fst (register 3000 2 (Some ''u3'') (Some ''m1'') two_joined)) = matches two_joined"
proof -
  have m: "matches two_joined = [(''m1'', [0, 1])]"
    by (simp add: two_joined_eval)
  from C1_match_capacity [of None
      "[(0, Connection), (0, Connection), (0, Connection),
        (1000, Register 0 (Some ''u1'') (Some ''m1'')),
        (2000, Register 1 (Some ''u2'') (Some ''m1''))]"
      two_joined "''m1''" "[0, 1]" 2 "''u3''" 3000, folded two_joined_def] m
  show ?thesis by simp
qed

lemma two_joined_leave:
  "handle 5000 (Disconnect 0) two_joined =
     (\<lparr>matches = [(''m1'', [1])],
       userSockets = [(''u2'', 1)],
       socketToUser = [(1, ''u2'')],
       matchMetadata = [(''m1'', \<lparr>createdAt = 1000, lastActivity = 2000\<rparr>)],
       deepgramConnections = [],
       sockets = [\<lparr>userId = Some ''u1'', matchId = Some ''m1'', connected = False\<rparr>,
                  \<lparr>userId = Some ''u2'', matchId = Some ''m1'', connected = True\<rparr>,
                  \<lparr>userId = None, matchId = None, connected = True\<rparr>],
       rooms = [(''m1'', [1])], providers = [], DEEPGRAM_API_KEY = None\<rparr>,
      [(1, UserLeft ''u1''), (1, CallEnded (Some ''u1''))])"
  by (simp add: two_joined_eval eval_defs disconnect_def socket_onclose_def close_existing_def)

text \<open>
  \<^bold>\<open>C5.\<close> In a state that the server can reach, let a connected socket with a non-empty
  userId label \<open>u\<close> and a non-empty matchId label \<open>m\<close> disconnect. Afterwards the user index
  has no entry for \<open>u\<close> and the socket index has no entry for the socket. If the match \<open>m\<close>
  exists, the socket is taken out of its member set; when no member is left, the match and
  its metadata are deleted, and otherwise the match keeps the other members and the metadata
  table is untouched. Every remaining member that is itself still connected is sent both
  \<^verbatim>\<open>user-left\<close> and \<^verbatim>\<open>call-ended\<close>; a member whose own socket has closed before has no channel
  to be notified on.
\<close>

theorem C5_disconnect_cleanup:
  assumes "s = run (init key) evs"
      and "is_connected s sk"
      and "userId_of s sk = Some u" and "u \<noteq> []"
      and "matchId_of s sk = Some m" and "m \<noteq> []"
      and "handle now (Disconnect sk) s = (s', out)"
  shows "map_of (userSockets s') u = None \<and> map_of (socketToUser s') sk = None \<and>
         (\<forall>xs. map_of (matches s) m = Some xs \<longrightarrow>
            (if removeAll sk xs = []
             then map_of (matches s') m = None \<and> map_of (matchMetadata s') m = None
             else map_of (matches s') m = Some (removeAll sk xs) \<and> matchMetadata s' = matchMetadata s) \<and>
            (\<forall>r \<in> set (removeAll sk xs). is_connected s' r \<longrightarrow>
               (r, UserLeft u) \<in> set out \<and> (r, CallEnded (Some u)) \<in> set out))"
proof -
  define t where "t = socket_onclose sk s"
  have live: "members_live s"
    unfolding assms(1) by (intro members_live_run members_live_init)
  have d: "disconnect sk t = (s', out)"
    using assms(2,7) by (simp add: on_socket_def t_def)
  have sk: "sk < length (sockets s)"
    using assms(2) by (simp add: is_connected_def)
  have ut: "userId_of t sk = Some u" and mt: "matchId_of t sk = Some m"
    using assms(3,5) sk by (simp_all add: t_def socket_onclose_def userId_of_def matchId_of_def)
  have frame: "matches t = matches s" "matchMetadata t = matchMetadata s"
    "userSockets t = userSockets s" "socketToUser t = socketToUser s"
    by (simp_all add: t_def socket_onclose_def)
  have idx: "map_of (userSockets s') u = None \<and> map_of (socketToUser s') sk = None"
  proof (cases "\<exists>xs. map_of (matches t) m = Some xs")
    case False
    then have "\<not> (\<exists>m xs. matchId_of t sk = Some m \<and> m \<noteq> [] \<and> map_of (matches t) m = Some xs)"
      using mt by simp
    from disconnect_no_match [OF ut assms(4) this] d show ?thesis
      by (auto simp: delete_conv')
  next
    case True
    then obtain xs where xs: "map_of (matches t) m = Some xs" by blast
    from disconnect_registered [OF ut assms(4) mt assms(6) xs refl] d show ?thesis
      by (auto simp: delete_conv' split: if_splits)
  qed
  have rest: "(if removeAll sk xs = []
             then map_of (matches s') m = None \<and> map_of (matchMetadata s') m = None
             else map_of (matches s') m = Some (removeAll sk xs) \<and> matchMetadata s' = matchMetadata s) \<and>
            (\<forall>r \<in> set (removeAll sk xs). is_connected s' r \<longrightarrow>
               (r, UserLeft u) \<in> set out \<and> (r, CallEnded (Some u)) \<in> set out)"
    if xs: "map_of (matches s) m = Some xs" for xs
  proof -
    from xs have xt: "map_of (matches t) m = Some xs" by (simp add: frame)
    note r = disconnect_registered [OF ut assms(4) mt assms(6) xt refl, unfolded d]
    from r have out: "out = emit_to_room t sk m (UserLeft u) @ emit_to_room t sk m (CallEnded (Some u))"
      by simp
    from r have socks: "sockets s' = sockets t"
      by (simp split: if_splits)
    have tables: "if removeAll sk xs = []
             then map_of (matches s') m = None \<and> map_of (matchMetadata s') m = None
             else map_of (matches s') m = Some (removeAll sk xs) \<and> matchMetadata s' = matchMetadata s"
      using r by (auto simp: delete_conv' update_conv' frame split: if_splits)
    have notify: "(r, UserLeft u) \<in> set out \<and> (r, CallEnded (Some u)) \<in> set out"
      if "r \<in> set (removeAll sk xs)" "is_connected s' r" for r
    proof -
      from that(2) have "is_connected t r"
        by (simp add: is_connected_def socks)
      then have c: "r \<noteq> sk" "is_connected s r"
        by (simp_all add: t_def is_connected_onclose)
      from that(1) have "r \<in> set xs" by simp
      from members_liveD [OF live xs this] c have "r \<in> set (room_members s m)" by simp
      with c(1) have "r \<in> set (room_members t m)"
        by (simp add: t_def room_members_onclose)
      with c(1) show ?thesis
        by (simp add: out emit_to_room_def image_iff)
    qed
    from tables notify show ?thesis by blast
  qed
  from idx rest show ?thesis by blast
qed

theorem C5_disconnect_cleanup_witness:
  "is_connected two_joined 0 \<and> userId_of two_joined 0 = Some ''u1'' \<and>
   matchId_of two_joined 0 = Some ''m1'' \<and>
   map_of (matches two_joined) ''m1'' = Some [0, 1] \<and>
   is_connected (fst (handle 5000 (Disconnect 0) two_joined)) 1 \<and>
   map_of (userSockets (fst (handle 5000 (Disconnect 0) two_joined))) ''u1'' = None \<and>
   map_of (socketToUser (fst (handle 5000 (Disconnect 0) two_joined))) 0 = None \<and>
   map_of (matches (fst (handle 5000 (Disconnect 0) two_joined))) ''m1'' = Some [1] \<and>
   (1, UserLeft ''u1'') \<in> set (snd (handle 5000 (Disconnect 0) two_joined)) \<and>
   (1, CallEnded (Some ''u1'')) \<in> set (snd (handle 5000 (Disconnect 0) two_joined))"
proof -
  have h: "is_connected two_joined 0" "userId_of two_joined 0 = Some ''u1''" "''u1'' \<noteq> []"
    "matchId_of two_joined 0 = Some ''m1''" "''m1'' \<noteq> []"
    "map_of (matches two_joined) ''m1'' = Some [0, 1]"
    by (simp_all add: two_joined_eval is_connected_def userId_of_def matchId_of_def)
  have c: "is_connected (fst (handle 5000 (Disconnect 0) two_joined)) 1"
    by (simp add: two_joined_leave is_connected_def del: handle.simps)
  from C5_disconnect_cleanup [OF two_joined_def h(1-5) prod.collapse [symmetric], of 5000] h(6) c
  have "map_of (userSockets (fst (handle 5000 (Disconnect 0) two_joined))) ''u1'' = None \<and>
   map_of (socketToUser (fst (handle 5000 (Disconnect 0) two_joined))) 0 = None \<and>
   map_of (matches (fst (handle 5000 (Disconnect 0) two_joined))) ''m1'' = Some [1] \<and>
   (1, UserLeft ''u1'') \<in> set (snd (handle 5000 (Disconnect 0) two_joined)) \<and>
   (1, CallEnded (Some ''u1'')) \<in> set (snd (handle 5000 (Disconnect 0) two_joined))"
    by simp
  with h c show ?thesis by simp
qed

lemma left_behind_eval:
  "left_behind =
     \<lparr>matches = [(''m1'', [0, 1])],
      userSockets = [(''u2'', 1)],
      socketToUser = [(1, ''u2'')],
      matchMetadata = [(''m1'', \<lparr>createdAt = 1000, lastActivity = 4000\<rparr>)],
      deepgramConnections = [],
      sockets = [\<lparr>userId = Some ''u1'', matchId = Some ''m2'', connected = False\<rparr>,
                 \<lparr>userId = Some ''u2'', matchId = Some ''m1'', connected = True\<rparr>],
      rooms = [(''m1'', [1]), (''m2'', [])], providers = [], DEEPGRAM_API_KEY = None\<rparr>"
  by (simp add: left_behind_def eval_defs disconnect_def socket_onclose_def close_existing_def)

text \<open>
  The claim as stated has every remaining member notified. In \<open>left_behind\<close> the second
  connection disconnects; the first, whose socket closed earlier, remains a member of \<open>m1\<close>
  and nothing is sent to it, nor to anybody.
\<close>

theorem C5_counterexample:
  "is_connected left_behind 1 \<and> userId_of left_behind 1 = Some ''u2'' \<and>
   matchId_of left_behind 1 = Some ''m1'' \<and>
   map_of (matches left_behind) ''m1'' = Some [0, 1] \<and>
   map_of (matches (fst (handle 5000 (Disconnect 1) left_behind))) ''m1'' = Some [0] \<and>
   snd (handle 5000 (Disconnect 1) left_behind) = []"
  by (simp add: left_behind_eval eval_defs disconnect_def socket_onclose_def close_existing_def)

subsection \<open>Starting transcription\<close>

lemma transcription_start_no_key:
  assumes "\<not> truthy (DEEPGRAM_API_KEY s)"
  shows "transcription_start sk lang s =
           (s, [(sk, TranscriptionError ''DEEPGRAM_API_KEY not configured on server'')])"
  using assms by (simp add: transcription_start_def)

lemma ws_close_length [simp]: "length (ws_close w ps) = length ps"
  by (simp add: ws_close_def)

lemma ws_close_state:
  "w < length ps \<Longrightarrow> readyState (ws_close w ps ! w) = (if readyState (ps ! w) = CLOSED then CLOSED else CLOSING)"
  by (simp add: ws_close_def)

lemma transcription_start_restart:
  assumes "truthy (DEEPGRAM_API_KEY s)" and "map_of (deepgramConnections s) sk = Some w"
      and "w < length (providers s)"
  shows "map_of (deepgramConnections (close_existing sk s)) sk = None \<and>
         readyState (providers (close_existing sk s) ! w) \<in> {CLOSING, CLOSED} \<and>
         transcription_start sk lang s = (open_session sk lang (close_existing sk s), []) \<and>
         map_of (deepgramConnections (fst (transcription_start sk lang s))) sk = Some (length (providers s)) \<and>
         readyState (providers (fst (transcription_start sk lang s)) ! w) \<in> {CLOSING, CLOSED} \<and>
         owner (providers (fst (transcription_start sk lang s)) ! length (providers s)) = sk \<and>
         readyState (providers (fst (transcription_start sk lang s)) ! length (providers s)) = CONNECTING"
  using assms
  by (simp add: transcription_start_def close_existing_def open_session_def Let_def
      delete_conv' update_conv' nth_append ws_close_state)

text \<open>
  \<^bold>\<open>C7.\<close> The run \<open>restarted\<close>: after the third start the connection owns two provider
  sockets that are open at the same time. The second one is not in the session table any
  more, because the \<^verbatim>\<open>close\<close> listener of the first (line 463) deleted the entry of the
  connection, whichever session it named; so the third start found nothing to close.
\<close>

theorem C7_two_open_sessions:
  "map owner (providers restarted) = [0, 0, 0] \<and>
   map readyState (providers restarted) = [CLOSED, OPEN, OPEN] \<and>
   deepgramConnections restarted = [(0, 2)]"
  by (simp add: restarted_def init_def on_socket_def is_connected_def transcription_start_def
      close_existing_def open_session_def ws_close_def on_provider_def set_ready_def
      dg_open_def dg_close_def)

end
